theory Spec2Isabelle
  imports Main "HOL-Library.Word" "HOL-Library.Signed_Division"
begin

unbundle bit_operations_syntax

section \<open>The producer of the shared-memory frame queue\<close>

text \<open>
  A shallow embedding of \<^verbatim>\<open>producer/test.cpp\<close>: the size constants, the routine
  \<^verbatim>\<open>write_frame\<close> that enqueues one frame into the circular queue, and the part of
  \<^verbatim>\<open>main\<close> that creates the shared objects and initialises the control block.

  Conventions of the model:
  \<^item> \<^verbatim>\<open>int\<close> is a 32-bit word read as two's complement; a \<^verbatim>\<open>float\<close> is the 32-bit
    word of its object representation, which is all that \<^verbatim>\<open>memcpy\<close> looks at;
  \<^item> \<^verbatim>\<open>size_t\<close> and pointers are 64 bits wide, so no offset computed here wraps, and
    an address is the (mathematical) byte offset from the start \<^verbatim>\<open>shm\<close> of the view;
  \<^item> the byte order is little-endian (the code targets Windows);
  \<^item> an access outside the mapped view, or a vector subscript outside the vector,
    is undefined behaviour in C++ and a \<open>fault\<close> value here;
  \<^item> a wait that cannot be satisfied in the current state is the value \<open>WouldBlock\<close>:
    with the producer alone in the model, such a call does not return;
  \<^item> the three synchronisation handles are valid, and a semaphore has the maximum
    count \<^verbatim>\<open>QUEUE_SIZE\<close> that \<^verbatim>\<open>main\<close> creates it with;
  \<^item> every call on a synchronisation handle, every access to the shared view and every
    vector subscript is appended to an event trace, in program order. Console output
    is not modelled.
\<close>

subsection \<open>Constants\<close>

type_synonym byte = "8 word"
type_synonym i32 = "32 word"
type_synonym f32 = "32 word"

definition INPUT_WIDTH :: nat where "INPUT_WIDTH = 640"
definition INPUT_HEIGHT :: nat where "INPUT_HEIGHT = 640"
definition CHANNELS :: nat where "CHANNELS = 3"
definition MAX_DETECTIONS :: nat where "MAX_DETECTIONS = 200"
definition QUEUE_SIZE :: nat where "QUEUE_SIZE = 5"

definition sizeof_int :: nat where "sizeof_int = 4"

definition DET_RECORD_SIZE :: nat where "DET_RECORD_SIZE = 24"

definition SLOT_SIZE :: nat where
  "SLOT_SIZE = 5 * sizeof_int + MAX_DETECTIONS * DET_RECORD_SIZE
     + INPUT_WIDTH * INPUT_HEIGHT * CHANNELS"

definition SHM_SIZE :: nat where
  "SHM_SIZE = 3 * sizeof_int + QUEUE_SIZE * SLOT_SIZE"

subsection \<open>Data\<close>

text \<open>\<^verbatim>\<open>cv::Rect\<close>: four \<^verbatim>\<open>int\<close> fields.\<close>

datatype Rect = Rect (rect_x: i32) (rect_y: i32) (rect_width: i32) (rect_height: i32)

text \<open>
  \<^verbatim>\<open>cv::Mat\<close>, as far as \<^verbatim>\<open>write_frame\<close> looks at it: a continuous pixel buffer
  \<^verbatim>\<open>data\<close>, whose length in bytes is what \<^verbatim>\<open>total() * elemSize()\<close> returns.
\<close>

datatype Mat = Mat (mat_data: "byte list")

definition mat_total_times_elemSize :: "Mat \<Rightarrow> nat" where
  "mat_total_times_elemSize m = length (mat_data m)"

datatype handle = H_semEmpty | H_semFull | H_mutex

datatype vec = V_class_ids | V_confs | V_boxes

datatype event =
    EvWait handle
  | EvRelease handle
  | EvLoad int nat
  | EvStore int nat
  | EvIndex vec nat

text \<open>
  A Windows mutex is recursive: the owning thread may acquire it again, and owns it
  until it has released it as many times.
\<close>

datatype mutex_state = Unowned | OwnedByProducer nat | OwnedByOther

datatype fault = WouldBlock | AccessViolation | IndexOutOfRange | StartupFailed

record state =
  mem :: "int \<Rightarrow> byte"
  cnt_semEmpty :: nat
  cnt_semFull :: nat
  own_mutex :: mutex_state
  trace :: "event list"

definition and_then :: "fault + 'a \<Rightarrow> ('a \<Rightarrow> fault + 'b) \<Rightarrow> fault + 'b" where
  "and_then m f = (case m of Inl e \<Rightarrow> Inl e | Inr v \<Rightarrow> f v)"

subsection \<open>Bytes of the shared view\<close>

definition le32 :: "32 word \<Rightarrow> byte list" where
  "le32 w = [ucast w, ucast (drop_bit 8 w), ucast (drop_bit 16 w), ucast (drop_bit 24 w)]"

definition rd32 :: "(int \<Rightarrow> byte) \<Rightarrow> int \<Rightarrow> 32 word" where
  "rd32 m p = ucast (m p) OR push_bit 8 (ucast (m (p + 1)))
     OR push_bit 16 (ucast (m (p + 2))) OR push_bit 24 (ucast (m (p + 3)))"

definition store_bytes :: "(int \<Rightarrow> byte) \<Rightarrow> int \<Rightarrow> byte list \<Rightarrow> (int \<Rightarrow> byte)" where
  "store_bytes m p bs =
     (\<lambda>a. if p \<le> a \<and> a < p + int (length bs) then bs ! nat (a - p) else m a)"

definition read_bytes :: "(int \<Rightarrow> byte) \<Rightarrow> int \<Rightarrow> nat \<Rightarrow> byte list" where
  "read_bytes m p n = map (\<lambda>k. m (p + int k)) [0..<n]"

definition in_view :: "int \<Rightarrow> nat \<Rightarrow> bool" where
  "in_view p n = (0 \<le> p \<and> p + int n \<le> int SHM_SIZE)"

text \<open>\<^verbatim>\<open>memcpy(p, src, n)\<close> into the view, \<open>bs\<close> being the \<open>n\<close> source bytes.\<close>

definition memcpy :: "int \<Rightarrow> byte list \<Rightarrow> state \<Rightarrow> fault + state" where
  "memcpy p bs s =
     (if in_view p (length bs)
      then Inr (s\<lparr>mem := store_bytes (mem s) p bs,
                  trace := trace s @ [EvStore p (length bs)]\<rparr>)
      else Inl AccessViolation)"

text \<open>\<^verbatim>\<open>memset(p, c, n)\<close> into the view.\<close>

definition memset :: "int \<Rightarrow> byte \<Rightarrow> nat \<Rightarrow> state \<Rightarrow> fault + state" where
  "memset p c n s = memcpy p (replicate n c) s"

text \<open>Reading and writing \<^verbatim>\<open>ctrl[k]\<close>, the \<^verbatim>\<open>int\<close> at byte offset \<open>4 * k\<close>.\<close>

definition ctrl_read :: "nat \<Rightarrow> state \<Rightarrow> fault + (i32 \<times> state)" where
  "ctrl_read k s =
     (let p = int (k * sizeof_int) in
      if in_view p sizeof_int
      then Inr (rd32 (mem s) p, s\<lparr>trace := trace s @ [EvLoad p sizeof_int]\<rparr>)
      else Inl AccessViolation)"

definition ctrl_write :: "nat \<Rightarrow> i32 \<Rightarrow> state \<Rightarrow> fault + state" where
  "ctrl_write k v s = memcpy (int (k * sizeof_int)) (le32 v) s"

text \<open>The unchecked subscript \<^verbatim>\<open>v[i]\<close> of a \<^verbatim>\<open>std::vector\<close>.\<close>

definition subscript :: "vec \<Rightarrow> 'a list \<Rightarrow> nat \<Rightarrow> state \<Rightarrow> fault + ('a \<times> state)" where
  "subscript v xs i s =
     (if i < length xs then Inr (xs ! i, s\<lparr>trace := trace s @ [EvIndex v i]\<rparr>)
      else Inl IndexOutOfRange)"

subsection \<open>Synchronisation objects\<close>

text \<open>
  \<^verbatim>\<open>WaitForSingleObject(h, INFINITE)\<close>: on a semaphore it takes one unit of the count,
  on the mutex it takes ownership.
\<close>

fun WaitForSingleObject :: "handle \<Rightarrow> state \<Rightarrow> fault + state" where
  "WaitForSingleObject H_semEmpty s =
     (if cnt_semEmpty s = 0 then Inl WouldBlock
      else Inr (s\<lparr>cnt_semEmpty := cnt_semEmpty s - 1, trace := trace s @ [EvWait H_semEmpty]\<rparr>))"
| "WaitForSingleObject H_semFull s =
     (if cnt_semFull s = 0 then Inl WouldBlock
      else Inr (s\<lparr>cnt_semFull := cnt_semFull s - 1, trace := trace s @ [EvWait H_semFull]\<rparr>))"
| "WaitForSingleObject H_mutex s =
     (case own_mutex s of
        Unowned \<Rightarrow> Inr (s\<lparr>own_mutex := OwnedByProducer 1, trace := trace s @ [EvWait H_mutex]\<rparr>)
      | OwnedByProducer n \<Rightarrow>
          Inr (s\<lparr>own_mutex := OwnedByProducer (n + 1), trace := trace s @ [EvWait H_mutex]\<rparr>)
      | OwnedByOther \<Rightarrow> Inl WouldBlock)"

text \<open>
  \<^verbatim>\<open>ReleaseMutex\<close> and \<^verbatim>\<open>ReleaseSemaphore(h, 1, nullptr)\<close>. Both report a failure by
  their return value, which the code ignores: a failed call changes nothing. A
  semaphore created with maximum count \<^verbatim>\<open>QUEUE_SIZE\<close> cannot be released beyond it.
\<close>

definition ReleaseMutex :: "state \<Rightarrow> state" where
  "ReleaseMutex s =
     (case own_mutex s of
        OwnedByProducer n \<Rightarrow>
          s\<lparr>own_mutex := (if n \<le> 1 then Unowned else OwnedByProducer (n - 1)),
            trace := trace s @ [EvRelease H_mutex]\<rparr>
      | _ \<Rightarrow> s\<lparr>trace := trace s @ [EvRelease H_mutex]\<rparr>)"

definition ReleaseSemaphore :: "handle \<Rightarrow> state \<Rightarrow> state" where
  "ReleaseSemaphore h s =
     (case h of
        H_semEmpty \<Rightarrow>
          s\<lparr>cnt_semEmpty := (if cnt_semEmpty s < QUEUE_SIZE then cnt_semEmpty s + 1
                               else cnt_semEmpty s),
            trace := trace s @ [EvRelease H_semEmpty]\<rparr>
      | H_semFull \<Rightarrow>
          s\<lparr>cnt_semFull := (if cnt_semFull s < QUEUE_SIZE then cnt_semFull s + 1
                              else cnt_semFull s),
            trace := trace s @ [EvRelease H_semFull]\<rparr>
      | H_mutex \<Rightarrow> s\<lparr>trace := trace s @ [EvRelease H_mutex]\<rparr>)"

subsection \<open>\<^verbatim>\<open>write_frame\<close>\<close>

text \<open>
  The branch \<^verbatim>\<open>i < num\<close> of the detection loop: six fields, each copied by its own
  \<^verbatim>\<open>memcpy\<close> of 4 bytes, the pointer \<open>p\<close> advancing by 4 after each.
\<close>

definition write_detection ::
  "int \<Rightarrow> nat \<Rightarrow> i32 list \<Rightarrow> f32 list \<Rightarrow> Rect list \<Rightarrow> state \<Rightarrow> fault + (int \<times> state)" where
  "write_detection p i class_ids confs boxes s =
     and_then (subscript V_class_ids class_ids i s) (\<lambda>(c, s).
     and_then (memcpy p (le32 c) s) (\<lambda>s.
     and_then (subscript V_confs confs i s) (\<lambda>(f, s).
     and_then (memcpy (p + 4) (le32 f) s) (\<lambda>s.
     and_then (subscript V_boxes boxes i s) (\<lambda>(b, s).
     and_then (memcpy (p + 8) (le32 (rect_x b)) s) (\<lambda>s.
     and_then (subscript V_boxes boxes i s) (\<lambda>(b, s).
     and_then (memcpy (p + 12) (le32 (rect_y b)) s) (\<lambda>s.
     and_then (subscript V_boxes boxes i s) (\<lambda>(b, s).
     and_then (memcpy (p + 16) (le32 (rect_width b)) s) (\<lambda>s.
     and_then (subscript V_boxes boxes i s) (\<lambda>(b, s).
     and_then (memcpy (p + 20) (le32 (rect_height b)) s) (\<lambda>s.
     Inr (p + 24, s)))))))))))))"

text \<open>The loop \<^verbatim>\<open>for (int i = 0; i < MAX_DETECTIONS; i++)\<close>, from index \<open>i\<close> on.\<close>

function detections_loop ::
  "nat \<Rightarrow> i32 \<Rightarrow> int \<Rightarrow> i32 list \<Rightarrow> f32 list \<Rightarrow> Rect list \<Rightarrow> state \<Rightarrow> fault + (int \<times> state)" where
  "detections_loop i num p class_ids confs boxes s =
     (if i < MAX_DETECTIONS then
        (if int i < sint num then
           and_then (write_detection p i class_ids confs boxes s) (\<lambda>(p', s').
             detections_loop (i + 1) num p' class_ids confs boxes s')
         else
           and_then (memset p 0 24 s) (\<lambda>s'.
             detections_loop (i + 1) num (p + 24) class_ids confs boxes s'))
      else Inr (p, s))"
  by pat_completeness auto
termination
  by (relation "measure (\<lambda>(i, num, p, class_ids, confs, boxes, s). MAX_DETECTIONS - i)") auto

text \<open>
  The offset of the slot from \<^verbatim>\<open>shm\<close>, as line 117 computes it:
  \<^verbatim>\<open>3 * sizeof(int) + write_idx * SLOT_SIZE\<close>, the index being converted from \<^verbatim>\<open>int\<close>.
\<close>

definition slot_offset :: "i32 \<Rightarrow> int" where
  "slot_offset write_idx = int (3 * sizeof_int) + sint write_idx * int SLOT_SIZE"

text \<open>
  \<^verbatim>\<open>static_cast<int>(boxes.size())\<close> followed by the clamp of line 121.
\<close>

definition clamped_num :: "Rect list \<Rightarrow> i32" where
  "clamped_num boxes =
     (let num = (word_of_nat (length boxes) :: i32)
      in if sint num > int MAX_DETECTIONS then word_of_nat MAX_DETECTIONS else num)"

definition write_frame ::
  "i32 \<Rightarrow> Mat \<Rightarrow> i32 list \<Rightarrow> f32 list \<Rightarrow> Rect list \<Rightarrow> state \<Rightarrow> fault + state" where
  "write_frame frame_id frame640 class_ids confs boxes s =
     and_then (WaitForSingleObject H_semEmpty s) (\<lambda>s.
     and_then (WaitForSingleObject H_mutex s) (\<lambda>s.
     and_then (ctrl_read 0 s) (\<lambda>(write_idx, s).
     let slot = slot_offset write_idx;
         p = slot;
         num = clamped_num boxes
     in
     and_then (memcpy p (le32 frame_id) s) (\<lambda>s.
     and_then (memcpy (p + 4) (le32 (word_of_nat INPUT_WIDTH)) s) (\<lambda>s.
     and_then (memcpy (p + 8) (le32 (word_of_nat INPUT_HEIGHT)) s) (\<lambda>s.
     and_then (memcpy (p + 12) (le32 (word_of_nat CHANNELS)) s) (\<lambda>s.
     and_then (memcpy (p + 16) (le32 num) s) (\<lambda>s.
     and_then (detections_loop 0 num (p + 20) class_ids confs boxes s) (\<lambda>(p, s).
     let image_size = INPUT_WIDTH * INPUT_HEIGHT * CHANNELS in
     and_then
       (if mat_total_times_elemSize frame640 = image_size
        then memcpy p (take image_size (mat_data frame640)) s
        else memset p 0 image_size s) (\<lambda>s.
     and_then (ctrl_write 0 (word_of_int ((sint write_idx + 1) smod int QUEUE_SIZE)) s) (\<lambda>s.
     and_then (ctrl_read 2 s) (\<lambda>(count, s).
     and_then (ctrl_write 2 (count + 1) s) (\<lambda>s.
     Inr (ReleaseSemaphore H_semFull (ReleaseMutex s)))))))))))))))"


subsection \<open>The start of \<^verbatim>\<open>main\<close>: shared objects and control block\<close>

text \<open>
  The named kernel objects as the process finds them. \<^verbatim>\<open>CreateFileMapping\<close>,
  \<^verbatim>\<open>CreateSemaphore\<close> and \<^verbatim>\<open>CreateMutex\<close> open the object of that name when there is
  one, with its contents, count or owner as they are; otherwise they create it: a
  mapping backed by the paging file starts as zero bytes, a semaphore at the initial
  count given, the mutex unowned. \<open>shm_refused\<close> stands for \<^verbatim>\<open>CreateFileMapping\<close>
  returning no handle, on which \<^verbatim>\<open>main\<close> returns \<open>-1\<close>; \<open>view_refused\<close> for
  \<^verbatim>\<open>MapViewOfFile\<close> returning a null pointer, which \<^verbatim>\<open>main\<close> does not test, so that
  its first store through \<^verbatim>\<open>ctrl\<close> faults.
\<close>

record kernel_objects =
  shm_refused :: bool
  view_refused :: bool
  obj_shm :: "(int \<Rightarrow> byte) option"
  obj_semEmpty :: "nat option"
  obj_semFull :: "nat option"
  obj_mutex :: "mutex_state option"

definition open_objects :: "kernel_objects \<Rightarrow> state" where
  "open_objects k =
     \<lparr>mem = (case obj_shm k of None \<Rightarrow> (\<lambda>a. 0) | Some m \<Rightarrow> m),
      cnt_semEmpty = (case obj_semEmpty k of None \<Rightarrow> QUEUE_SIZE | Some c \<Rightarrow> c),
      cnt_semFull = (case obj_semFull k of None \<Rightarrow> 0 | Some c \<Rightarrow> c),
      own_mutex = (case obj_mutex k of None \<Rightarrow> Unowned | Some w \<Rightarrow> w),
      trace = []\<rparr>"

text \<open>Lines 177 to 205 of \<^verbatim>\<open>main\<close>.\<close>

definition main_init :: "kernel_objects \<Rightarrow> fault + state" where
  "main_init k =
     (if shm_refused k then Inl StartupFailed
      else if view_refused k then Inl AccessViolation
      else
        and_then (ctrl_write 0 0 (open_objects k)) (\<lambda>s.
        and_then (ctrl_write 1 0 s) (\<lambda>s.
        ctrl_write 2 0 s)))"

text \<open>The fields of the control block, read from the view.\<close>

definition write_index :: "state \<Rightarrow> i32" where
  "write_index s = rd32 (mem s) 0"

definition read_index :: "state \<Rightarrow> i32" where
  "read_index s = rd32 (mem s) 4"

definition total_written :: "state \<Rightarrow> i32" where
  "total_written s = rd32 (mem s) 8"

subsection \<open>A run of calls\<close>

text \<open>
  The video loop of \<^verbatim>\<open>main\<close> calls \<^verbatim>\<open>write_frame\<close> once per frame, with what the
  upstream stages computed for it. A \<open>Frame\<close> is the argument list of one such call,
  and \<open>write_frames\<close> makes the calls one after the other, stopping at the first that
  does not return.
\<close>

datatype Frame = Frame (fr_id: i32) (fr_image: Mat) (fr_class_ids: "i32 list")
  (fr_confs: "f32 list") (fr_boxes: "Rect list")

definition enqueue :: "Frame \<Rightarrow> state \<Rightarrow> fault + state" where
  "enqueue f s = write_frame (fr_id f) (fr_image f) (fr_class_ids f) (fr_confs f) (fr_boxes f) s"

fun write_frames :: "Frame list \<Rightarrow> state \<Rightarrow> fault + state" where
  "write_frames [] s = Inr s"
| "write_frames (f # fs) s = and_then (enqueue f s) (write_frames fs)"

section \<open>The frame record as the specification lays it out\<close>

text \<open>
  The definitions of this section follow the words of the specification (its sections
  3, 4.3 and 6), not the code: a header of five 4-byte fields, the detection count
  clamped to \<^verbatim>\<open>MAX_DETECTIONS\<close>; then \<^verbatim>\<open>MAX_DETECTIONS\<close> detection records of six 4-byte
  fields each, the detections in input order and zeroed records after them. The
  specification takes the detections as one list of triples; \<open>detections_of\<close> pairs up
  the three parallel vectors that the code takes.
\<close>

definition spec_header :: "i32 \<Rightarrow> nat \<Rightarrow> byte list" where
  "spec_header frame_id detection_count =
     le32 frame_id @ le32 (word_of_nat INPUT_WIDTH) @ le32 (word_of_nat INPUT_HEIGHT)
       @ le32 (word_of_nat CHANNELS) @ le32 (word_of_nat detection_count)"

definition spec_detection :: "i32 \<times> f32 \<times> Rect \<Rightarrow> byte list" where
  "spec_detection d =
     (case d of (class_id, confidence, box) \<Rightarrow>
        le32 class_id @ le32 confidence @ le32 (rect_x box) @ le32 (rect_y box)
          @ le32 (rect_width box) @ le32 (rect_height box))"

definition spec_detections :: "(i32 \<times> f32 \<times> Rect) list \<Rightarrow> byte list" where
  "spec_detections dets =
     concat (map spec_detection (take MAX_DETECTIONS dets))
       @ replicate (DET_RECORD_SIZE * (MAX_DETECTIONS - length dets)) 0"

definition spec_record_prefix :: "i32 \<Rightarrow> (i32 \<times> f32 \<times> Rect) list \<Rightarrow> byte list" where
  "spec_record_prefix frame_id dets =
     spec_header frame_id (min (length dets) MAX_DETECTIONS) @ spec_detections dets"

definition detections_of :: "i32 list \<Rightarrow> f32 list \<Rightarrow> Rect list \<Rightarrow> (i32 \<times> f32 \<times> Rect) list" where
  "detections_of class_ids confs boxes = zip class_ids (zip confs boxes)"

definition spec_prefix_of :: "Frame \<Rightarrow> byte list" where
  "spec_prefix_of f =
     spec_record_prefix (fr_id f) (detections_of (fr_class_ids f) (fr_confs f) (fr_boxes f))"

text \<open>
  The input contract of a call: the three vectors are parallel, and their size is one
  that \<^verbatim>\<open>static_cast<int>\<close> leaves unchanged.
\<close>

definition well_formed :: "Frame \<Rightarrow> bool" where
  "well_formed f =
     (length (fr_class_ids f) = length (fr_boxes f) \<and> length (fr_confs f) = length (fr_boxes f)
      \<and> length (fr_boxes f) < 2 ^ 31)"

section \<open>Closed forms and observations\<close>

text \<open>
  The definitions of this section are not code either: they name the bytes, the events
  and the state that \<^verbatim>\<open>write_frame\<close> and \<^verbatim>\<open>main\<close> are proved below to produce, and the
  conditions under which they do.
\<close>

definition encode_detection :: "i32 \<Rightarrow> f32 \<Rightarrow> Rect \<Rightarrow> byte list" where
  "encode_detection c f b =
     le32 c @ le32 f @ le32 (rect_x b) @ le32 (rect_y b) @ le32 (rect_width b)
       @ le32 (rect_height b)"

definition loop_bytes :: "nat \<Rightarrow> i32 \<Rightarrow> i32 list \<Rightarrow> f32 list \<Rightarrow> Rect list \<Rightarrow> byte list" where
  "loop_bytes i num class_ids confs boxes =
     concat (map (\<lambda>j. if int j < sint num
                          then encode_detection (class_ids ! j) (confs ! j) (boxes ! j)
                          else replicate 24 0) [i..<MAX_DETECTIONS])"

definition det_events :: "int \<Rightarrow> nat \<Rightarrow> event list" where
  "det_events p i =
     [EvIndex V_class_ids i, EvStore p 4, EvIndex V_confs i, EvStore (p + 4) 4,
      EvIndex V_boxes i, EvStore (p + 8) 4, EvIndex V_boxes i, EvStore (p + 12) 4,
      EvIndex V_boxes i, EvStore (p + 16) 4, EvIndex V_boxes i, EvStore (p + 20) 4]"

definition loop_events :: "int \<Rightarrow> i32 \<Rightarrow> nat \<Rightarrow> event list" where
  "loop_events q num i =
     concat (map (\<lambda>j. if int j < sint num then det_events (q + 24 * int j) j
                          else [EvStore (q + 24 * int j) 24]) [i..<MAX_DETECTIONS])"

definition image_bytes :: "Mat \<Rightarrow> byte list" where
  "image_bytes frame640 =
     (let image_size = INPUT_WIDTH * INPUT_HEIGHT * CHANNELS in
      if mat_total_times_elemSize frame640 = image_size
      then take image_size (mat_data frame640) else replicate image_size 0)"

definition header_bytes :: "i32 \<Rightarrow> i32 \<Rightarrow> byte list" where
  "header_bytes frame_id num =
     le32 frame_id @ le32 (word_of_nat INPUT_WIDTH) @ le32 (word_of_nat INPUT_HEIGHT)
       @ le32 (word_of_nat CHANNELS) @ le32 num"

definition slot_bytes :: "i32 \<Rightarrow> Mat \<Rightarrow> i32 list \<Rightarrow> f32 list \<Rightarrow> Rect list \<Rightarrow> byte list" where
  "slot_bytes frame_id frame640 class_ids confs boxes =
     header_bytes frame_id (clamped_num boxes)
       @ loop_bytes 0 (clamped_num boxes) class_ids confs boxes
       @ image_bytes frame640"

definition body_events :: "int \<Rightarrow> i32 \<Rightarrow> event list" where
  "body_events slot num =
     [EvLoad 0 4, EvStore slot 4, EvStore (slot + 4) 4, EvStore (slot + 8) 4,
      EvStore (slot + 12) 4, EvStore (slot + 16) 4]
     @ loop_events (slot + 20) num 0
     @ [EvStore (slot + 20 + 24 * int MAX_DETECTIONS) (INPUT_WIDTH * INPUT_HEIGHT * CHANNELS),
        EvStore 0 4, EvLoad 8 4, EvStore 8 4]"

definition acquired :: "mutex_state \<Rightarrow> mutex_state" where
  "acquired w = (case w of Unowned \<Rightarrow> OwnedByProducer 1
                 | OwnedByProducer n \<Rightarrow> OwnedByProducer (n + 1)
                 | OwnedByOther \<Rightarrow> OwnedByOther)"

definition next_index :: "i32 \<Rightarrow> i32" where
  "next_index w = word_of_int ((sint w + 1) smod int QUEUE_SIZE)"

definition post :: "i32 \<Rightarrow> Mat \<Rightarrow> i32 list \<Rightarrow> f32 list \<Rightarrow> Rect list \<Rightarrow> state \<Rightarrow> state" where
  "post frame_id frame640 class_ids confs boxes s =
     (let slot = slot_offset (write_index s);
          m1 = store_bytes (mem s) slot (slot_bytes frame_id frame640 class_ids confs boxes);
          m2 = store_bytes m1 0 (le32 (next_index (write_index s)));
          m3 = store_bytes m2 8 (le32 (rd32 m2 8 + 1))
      in ReleaseSemaphore H_semFull (ReleaseMutex
           (s\<lparr>cnt_semEmpty := cnt_semEmpty s - 1,
              own_mutex := acquired (own_mutex s),
              mem := m3,
              trace := trace s @ [EvWait H_semEmpty, EvWait H_mutex]
                 @ body_events slot (clamped_num boxes)\<rparr>)))"

definition indices_ok :: "nat \<Rightarrow> i32 \<Rightarrow> i32 list \<Rightarrow> f32 list \<Rightarrow> Rect list \<Rightarrow> bool" where
  "indices_ok i num class_ids confs boxes =
     (\<forall>j. i \<le> j \<and> j < MAX_DETECTIONS \<and> int j < sint num \<longrightarrow>
          j < length class_ids \<and> j < length confs \<and> j < length boxes)"

text \<open>
  A state in which a call of \<^verbatim>\<open>write_frame\<close> gets past its two waits and finds a slot
  inside the view: a free slot is counted, no other process holds the mutex, and the
  write index is one of the \<^verbatim>\<open>QUEUE_SIZE\<close> slots.
\<close>

definition ready :: "state \<Rightarrow> bool" where
  "ready s =
     (0 < cnt_semEmpty s \<and> own_mutex s \<noteq> OwnedByOther
      \<and> 0 \<le> sint (write_index s) \<and> sint (write_index s) < int QUEUE_SIZE)"

definition enabled :: "i32 list \<Rightarrow> f32 list \<Rightarrow> Rect list \<Rightarrow> state \<Rightarrow> bool" where
  "enabled class_ids confs boxes s =
     (ready s \<and> indices_ok 0 (clamped_num boxes) class_ids confs boxes)"

definition initialised :: "kernel_objects \<Rightarrow> state" where
  "initialised k =
     (open_objects k)\<lparr>mem := store_bytes (mem (open_objects k)) 0 (le32 0 @ le32 0 @ le32 0),
                      trace := [EvStore 0 4, EvStore 4 4, EvStore 8 4]\<rparr>"

text \<open>The events a call has appended to the trace, and those that are no synchronisation.\<close>

definition new_events :: "state \<Rightarrow> state \<Rightarrow> event list" where
  "new_events s s' = drop (length (trace s)) (trace s')"


section \<open>Concrete inputs\<close>

text \<open>
  A machine on which none of the named objects exists yet, and one on which an earlier
  run has left the queue with write index 3, read index 2 and 8 frames written.
\<close>

definition no_objects :: kernel_objects where
  "no_objects = \<lparr>shm_refused = False, view_refused = False, obj_shm = None, obj_semEmpty = None,
                  obj_semFull = None, obj_mutex = None\<rparr>"

definition existing_objects :: kernel_objects where
  "existing_objects =
     \<lparr>shm_refused = False, view_refused = False,
      obj_shm = Some (store_bytes (\<lambda>a. 0) 0 (le32 3 @ le32 2 @ le32 8)),
      obj_semEmpty = Some 4, obj_semFull = Some 1, obj_mutex = Some Unowned\<rparr>"

text \<open>
  The scenario of the specification's section 8: frame 1 with the detections
  \<open>(3, 0.91, 10, 20, 30, 40)\<close> and \<open>(7, 0.5, 0, 0, 5, 5)\<close>, the confidences as IEEE
  single-precision bit patterns, and an image of 640 x 640 x 3 bytes of value 114.
\<close>

definition scenario_image :: Mat where
  "scenario_image = Mat (replicate 1228800 114)"

definition scenario_class_ids :: "i32 list" where
  "scenario_class_ids = [3, 7]"

definition scenario_confs :: "f32 list" where
  "scenario_confs = [0x3F68F5C3, 0x3F000000]"

definition scenario_boxes :: "Rect list" where
  "scenario_boxes = [Rect 10 20 30 40, Rect 0 0 5 5]"

text \<open>A call with 201 detections, an image of the wrong size, and a run of two frames.\<close>

definition many_boxes :: "Rect list" where
  "many_boxes = map (\<lambda>i. Rect (word_of_nat i) 2 3 4) [0..<201]"

definition many_class_ids :: "i32 list" where
  "many_class_ids = map word_of_nat [0..<201]"

definition many_confs :: "f32 list" where
  "many_confs = replicate 201 0x3F000000"

definition short_image :: Mat where
  "short_image = Mat [1, 2, 3]"

definition first_frame :: Frame where
  "first_frame = Frame 1 scenario_image scenario_class_ids scenario_confs scenario_boxes"

definition second_frame :: Frame where
  "second_frame = Frame 2 short_image [] [] []"

section \<open>Properties\<close>

subsection \<open>Bytes and words\<close>

declare detections_loop.simps [simp del]

lemma and_then_Inr [simp]: "and_then (Inr v) f = f v"
  by (simp add: and_then_def)

lemma and_then_Inl [simp]: "and_then (Inl e) f = Inl e"
  by (simp add: and_then_def)

lemma and_then_eq_Inr: "and_then m f = Inr r \<longleftrightarrow> (\<exists>v. m = Inr v \<and> f v = Inr r)"
  by (cases m) simp_all

lemma length_le32 [simp]: "length (le32 w) = 4"
  by (simp add: le32_def)

lemma store_bytes_append:
  "store_bytes (store_bytes m p bs) (p + int (length bs)) cs = store_bytes m p (bs @ cs)"
proof (rule ext)
  fix a
  have "nat (a - (p + int (length bs))) = nat (a - p) - length bs"
    by linarith
  moreover have "a - p < int (length bs) \<longleftrightarrow> nat (a - p) < length bs" if "p \<le> a"
    using that by linarith
  ultimately show "store_bytes (store_bytes m p bs) (p + int (length bs)) cs a
      = store_bytes m p (bs @ cs) a"
    by (auto simp: store_bytes_def nth_append)
qed

lemma read_bytes_store_bytes:
  "read_bytes (store_bytes m p (as @ bs @ cs)) (p + int (length as)) (length bs) = bs"
proof (rule nth_equalityI)
  show "length (read_bytes (store_bytes m p (as @ bs @ cs)) (p + int (length as)) (length bs))
      = length bs"
    by (simp add: read_bytes_def)
next
  fix i
  assume "i < length (read_bytes (store_bytes m p (as @ bs @ cs)) (p + int (length as)) (length bs))"
  then have i: "i < length bs"
    by (simp add: read_bytes_def)
  have "nat (int (length as) + int i) = length as + i"
    by linarith
  with i show "read_bytes (store_bytes m p (as @ bs @ cs)) (p + int (length as)) (length bs) ! i
      = bs ! i"
    by (simp add: read_bytes_def store_bytes_def nth_append)
qed

lemma le32_recombine:
  "(ucast (ucast w :: byte) :: 32 word) OR push_bit 8 (ucast (ucast (drop_bit 8 w) :: byte))
     OR push_bit 16 (ucast (ucast (drop_bit 16 w) :: byte))
     OR push_bit 24 (ucast (ucast (drop_bit 24 w) :: byte)) = w"
proof (rule bit_word_eqI)
  fix n :: nat
  assume "n < LENGTH(32)"
  then have "n < 8 \<or> (8 \<le> n \<and> n < 16) \<or> (16 \<le> n \<and> n < 24) \<or> (24 \<le> n \<and> n < 32)"
    by auto
  then show "bit ((ucast (ucast w :: byte) :: 32 word)
        OR push_bit 8 (ucast (ucast (drop_bit 8 w) :: byte))
        OR push_bit 16 (ucast (ucast (drop_bit 16 w) :: byte))
        OR push_bit 24 (ucast (ucast (drop_bit 24 w) :: byte))) n = bit w n"
    by (auto simp: bit_simps)
qed

lemma rd32_le32: "rd32 (store_bytes m p (le32 w)) p = w"
  using le32_recombine [of w] by (simp add: rd32_def store_bytes_def le32_def)

lemma rd32_cong: "(\<And>a. p \<le> a \<Longrightarrow> a < p + 4 \<Longrightarrow> m a = m' a) \<Longrightarrow> rd32 m p = rd32 m' p"
  by (simp add: rd32_def)

subsection \<open>The detection loop\<close>

lemma length_encode_detection [simp]: "length (encode_detection c f b) = 24"
  by (simp add: encode_detection_def)

lemma memcpy_Inr:
  "in_view p (length bs) \<Longrightarrow>
   memcpy p bs s = Inr (s\<lparr>mem := store_bytes (mem s) p bs, trace := trace s @ [EvStore p (length bs)]\<rparr>)"
  by (simp add: memcpy_def)

lemma store_bytes_append4:
  "length bs = n \<Longrightarrow> store_bytes (store_bytes m p bs) (p + int n) cs = store_bytes m p (bs @ cs)"
  using store_bytes_append [of m p bs cs] by simp

lemma write_detection_Inr:
  assumes v: "in_view p 24"
    and i: "i < length class_ids" "i < length confs" "i < length boxes"
  shows "write_detection p i class_ids confs boxes s =
    Inr (p + 24, s\<lparr>mem := store_bytes (mem s) p
                          (encode_detection (class_ids ! i) (confs ! i) (boxes ! i)),
                      trace := trace s @ det_events p i\<rparr>)"
proof -
  have w: "in_view p 4" "in_view (p + 4) 4" "in_view (p + 8) 4" "in_view (p + 12) 4"
    "in_view (p + 16) 4" "in_view (p + 20) 4"
    using v by (auto simp: in_view_def)
  have m: "store_bytes (store_bytes (store_bytes (store_bytes (store_bytes (store_bytes m p
      (le32 a)) (p + 4) (le32 b)) (p + 8) (le32 c)) (p + 12) (le32 d)) (p + 16) (le32 e))
      (p + 20) (le32 f) = store_bytes m p (le32 a @ le32 b @ le32 c @ le32 d @ le32 e @ le32 f)"
    for m a b c d e f
    by (simp add: store_bytes_append4 [where n = 4, simplified]
        store_bytes_append4 [where n = 8, simplified]
        store_bytes_append4 [where n = 12, simplified]
        store_bytes_append4 [where n = 16, simplified]
        store_bytes_append4 [where n = 20, simplified])
  show ?thesis
    using i w
    by (simp add: write_detection_def subscript_def memcpy_def m encode_detection_def
        det_events_def)
qed

lemma store_bytes_Nil [simp]: "store_bytes m p [] = m"
  by (rule ext) (auto simp: store_bytes_def)

lemma loop_bytes_end [simp]: "loop_bytes MAX_DETECTIONS num class_ids confs boxes = []"
  by (simp add: loop_bytes_def)

lemma loop_events_end [simp]: "loop_events q num MAX_DETECTIONS = []"
  by (simp add: loop_events_def)

lemma loop_bytes_step:
  "i < MAX_DETECTIONS \<Longrightarrow>
   loop_bytes i num class_ids confs boxes =
     (if int i < sint num then encode_detection (class_ids ! i) (confs ! i) (boxes ! i)
      else replicate 24 0) @ loop_bytes (Suc i) num class_ids confs boxes"
  by (simp add: loop_bytes_def upt_conv_Cons)

lemma loop_events_step:
  "i < MAX_DETECTIONS \<Longrightarrow>
   loop_events q num i =
     (if int i < sint num then det_events (q + 24 * int i) i
      else [EvStore (q + 24 * int i) 24]) @ loop_events q num (Suc i)"
  by (simp add: loop_events_def upt_conv_Cons)

lemma indices_ok_Suc: "indices_ok i num cs fs bs \<Longrightarrow> indices_ok (Suc i) num cs fs bs"
  by (simp add: indices_ok_def)

lemma indices_ok_here:
  "indices_ok i num cs fs bs \<Longrightarrow> i < MAX_DETECTIONS \<Longrightarrow> int i < sint num \<Longrightarrow>
   i < length cs \<and> i < length fs \<and> i < length bs"
  by (simp add: indices_ok_def)

lemma detections_loop_Inr:
  assumes "n = MAX_DETECTIONS - i" "i \<le> MAX_DETECTIONS"
    and "in_view (q + 24 * int i) (24 * (MAX_DETECTIONS - i))"
    and "indices_ok i num class_ids confs boxes"
  shows "detections_loop i num (q + 24 * int i) class_ids confs boxes s =
    Inr (q + 24 * int MAX_DETECTIONS,
         s\<lparr>mem := store_bytes (mem s) (q + 24 * int i) (loop_bytes i num class_ids confs boxes),
           trace := trace s @ loop_events q num i\<rparr>)"
  using assms
proof (induction n arbitrary: i s)
  case 0
  then have "i = MAX_DETECTIONS" by simp
  then show ?case
    by (simp add: detections_loop.simps [of MAX_DETECTIONS])
next
  case (Suc n)
  then have lt: "i < MAX_DETECTIONS" by simp
  let ?p = "q + 24 * int i"
  have p': "?p + 24 = q + 24 * int (Suc i)" by simp
  have v1: "in_view ?p 24"
    using Suc.prems(3) lt by (auto simp: in_view_def)
  have v2: "in_view (q + 24 * int (Suc i)) (24 * (MAX_DETECTIONS - Suc i))"
    using Suc.prems(3) lt by (auto simp: in_view_def)
  have ih: "detections_loop (Suc i) num (q + 24 * int (Suc i)) class_ids confs boxes t =
    Inr (q + 24 * int MAX_DETECTIONS,
         t\<lparr>mem := store_bytes (mem t) (q + 24 * int (Suc i))
                    (loop_bytes (Suc i) num class_ids confs boxes),
           trace := trace t @ loop_events q num (Suc i)\<rparr>)" for t
    using Suc.IH [of "Suc i" t] Suc.prems lt v2 by (simp add: indices_ok_Suc)
  have ap: "store_bytes (store_bytes m ?p bs) (q + 24 * int (Suc i)) cs = store_bytes m ?p (bs @ cs)"
    if "length bs = 24" for m bs cs
    using store_bytes_append [of m ?p bs cs] that by (simp add: algebra_simps)
  show ?case
  proof (cases "int i < sint num")
    case True
    note ix = indices_ok_here [OF Suc.prems(4) lt True]
    show ?thesis
      using lt True ix
      by (subst detections_loop.simps)
        (simp add: write_detection_Inr [OF v1] p' ih loop_bytes_step loop_events_step
          ap del: of_nat_Suc)
  next
    case False
    show ?thesis
      using lt False v1
      by (subst detections_loop.simps)
        (simp add: memset_def memcpy_def p' ih loop_bytes_step loop_events_step
          ap del: of_nat_Suc)
  qed
qed

subsection \<open>Sizes and conversions\<close>

lemma length_loop_bytes:
  "i \<le> MAX_DETECTIONS \<Longrightarrow>
   length (loop_bytes i num class_ids confs boxes) = 24 * (MAX_DETECTIONS - i)"
proof (induction "MAX_DETECTIONS - i" arbitrary: i)
  case 0
  then have "i = MAX_DETECTIONS" by simp
  then show ?case by simp
next
  case (Suc n)
  then have "i < MAX_DETECTIONS" by simp
  moreover from Suc have "length (loop_bytes (Suc i) num class_ids confs boxes)
      = 24 * (MAX_DETECTIONS - Suc i)"
    by simp
  ultimately show ?case
    by (simp add: loop_bytes_step)
qed

lemma length_header_bytes [simp]: "length (header_bytes frame_id num) = 20"
  by (simp add: header_bytes_def)

lemma length_image_bytes [simp]:
  "length (image_bytes frame640) = INPUT_WIDTH * INPUT_HEIGHT * CHANNELS"
  by (simp add: image_bytes_def mat_total_times_elemSize_def Let_def)

lemma length_slot_bytes [simp]:
  "length (slot_bytes frame_id frame640 class_ids confs boxes) = SLOT_SIZE"
  by (simp add: slot_bytes_def length_loop_bytes SLOT_SIZE_def sizeof_int_def DET_RECORD_SIZE_def)

lemma in_view_slot:
  "0 \<le> sint w \<Longrightarrow> sint w < int QUEUE_SIZE \<Longrightarrow> in_view (slot_offset w) SLOT_SIZE"
proof -
  assume a: "0 \<le> sint w" "sint w < int QUEUE_SIZE"
  then have "sint w * int SLOT_SIZE \<le> (int QUEUE_SIZE - 1) * int SLOT_SIZE"
    by (intro mult_right_mono) simp_all
  with a show ?thesis
    by (simp add: in_view_def slot_offset_def SHM_SIZE_def sizeof_int_def algebra_simps)
qed

lemma WaitForSingleObject_mutex_Inr:
  "own_mutex s \<noteq> OwnedByOther \<Longrightarrow>
   WaitForSingleObject H_mutex s =
     Inr (s\<lparr>own_mutex := acquired (own_mutex s), trace := trace s @ [EvWait H_mutex]\<rparr>)"
  by (cases "own_mutex s") (simp_all add: acquired_def)

lemma sint_word_of_int_small:
  "- (2 ^ 31) \<le> k \<Longrightarrow> k < 2 ^ 31 \<Longrightarrow> sint (word_of_int k :: 32 word) = k"
  by (simp add: int_word_sint)

lemma sint_word_of_nat_small: "n < 2 ^ 31 \<Longrightarrow> sint (word_of_nat n :: 32 word) = int n"
  using sint_word_of_int_small [of "int n"] by simp

lemma sint_word_of_nat_le: "sint (word_of_nat n :: 32 word) \<le> int n"
proof -
  have "sint (word_of_nat n :: 32 word) = (int n + 2 ^ 31) mod 2 ^ 32 - 2 ^ 31"
    using int_word_sint [of "int n", where 'a = 32] by simp
  moreover have "(int n + 2 ^ 31) mod 2 ^ 32 \<le> int n + 2 ^ 31"
    by (rule zmod_le_nonneg_dividend) simp
  ultimately show ?thesis by simp
qed

lemma sint_next_small: "0 \<le> sint (w :: 32 word) \<Longrightarrow> sint w < 5 \<Longrightarrow> sint (word_of_int ((sint w + 1) smod 5) :: 32 word) = (sint w + 1) mod 5"
proof -
  assume a: "0 \<le> sint w" "sint w < 5"
  then have "(sint w + 1) smod 5 = (sint w + 1) mod 5"
    by (simp add: smod_mod_positive)
  moreover have "0 \<le> (sint w + 1) mod 5" "(sint w + 1) mod 5 < 5"
    by simp_all
  ultimately show ?thesis
    by (simp add: sint_word_of_int_small)
qed

lemma concat_replicate_replicate: "concat (replicate k (replicate n x)) = replicate (k * n) x"
  by (induction k) (simp_all add: replicate_add)

subsection \<open>When \<^verbatim>\<open>write_frame\<close> returns, and what it returns\<close>

lemma merge_slot:
  assumes "length lb = 24 * MAX_DETECTIONS"
  shows "store_bytes (store_bytes (store_bytes (store_bytes (store_bytes (store_bytes (store_bytes m
      slot (le32 a)) (slot + 4) (le32 b)) (slot + 8) (le32 c)) (slot + 12) (le32 d))
      (slot + 16) (le32 e)) (slot + 20) lb) (slot + 20 + 24 * int MAX_DETECTIONS) ib
    = store_bytes m slot (le32 a @ le32 b @ le32 c @ le32 d @ le32 e @ lb @ ib)"
proof -
  have "length (le32 a @ le32 b @ le32 c @ le32 d @ le32 e @ lb) = 20 + 24 * MAX_DETECTIONS"
    using assms by simp
  then have "store_bytes (store_bytes m slot (le32 a @ le32 b @ le32 c @ le32 d @ le32 e @ lb))
      (slot + 20 + 24 * int MAX_DETECTIONS) ib
    = store_bytes m slot ((le32 a @ le32 b @ le32 c @ le32 d @ le32 e @ lb) @ ib)"
    using store_bytes_append [of m slot "le32 a @ le32 b @ le32 c @ le32 d @ le32 e @ lb" ib]
    by (simp add: add.assoc)
  then show ?thesis
    by (simp add: store_bytes_append4 [where n = 4, simplified]
        store_bytes_append4 [where n = 8, simplified]
        store_bytes_append4 [where n = 12, simplified]
        store_bytes_append4 [where n = 16, simplified]
        store_bytes_append4 [where n = 20, simplified])
qed

lemma write_frame_Inr:
  assumes en: "enabled class_ids confs boxes s"
  shows "write_frame frame_id frame640 class_ids confs boxes s =
    Inr (post frame_id frame640 class_ids confs boxes s)"
proof -
  let ?w = "write_index s"
  let ?slot = "slot_offset ?w"
  let ?num = "clamped_num boxes"
  from en have sem: "cnt_semEmpty s \<noteq> 0" and mu: "own_mutex s \<noteq> OwnedByOther"
    and w: "0 \<le> sint ?w" "sint ?w < int QUEUE_SIZE"
    and ix: "indices_ok 0 ?num class_ids confs boxes"
    by (simp_all add: enabled_def ready_def)
  have sv: "in_view ?slot SLOT_SIZE"
    using w by (rule in_view_slot)
  have ss: "SLOT_SIZE = 1233620"
    by (simp add: SLOT_SIZE_def sizeof_int_def DET_RECORD_SIZE_def MAX_DETECTIONS_def
        INPUT_WIDTH_def INPUT_HEIGHT_def CHANNELS_def)
  have hv: "in_view ?slot 4" "in_view (?slot + 4) 4" "in_view (?slot + 8) 4"
    "in_view (?slot + 12) 4" "in_view (?slot + 16) 4"
    using sv unfolding ss by (auto simp: in_view_def)
  have lv: "in_view (?slot + 20) (24 * MAX_DETECTIONS)"
    using sv unfolding ss by (auto simp: in_view_def MAX_DETECTIONS_def)
  have iv: "in_view (?slot + 20 + 24 * int MAX_DETECTIONS) (INPUT_WIDTH * INPUT_HEIGHT * CHANNELS)"
    using sv unfolding ss
    by (auto simp: in_view_def MAX_DETECTIONS_def INPUT_WIDTH_def INPUT_HEIGHT_def CHANNELS_def)
  have cv: "in_view 0 4" "in_view 8 4"
    by (simp_all add: in_view_def SHM_SIZE_def SLOT_SIZE_def sizeof_int_def QUEUE_SIZE_def)
  have loop: "detections_loop 0 ?num (?slot + 20) class_ids confs boxes t =
    Inr (?slot + 20 + 24 * int MAX_DETECTIONS,
         t\<lparr>mem := store_bytes (mem t) (?slot + 20) (loop_bytes 0 ?num class_ids confs boxes),
           trace := trace t @ loop_events (?slot + 20) ?num 0\<rparr>)" for t
    using detections_loop_Inr [of MAX_DETECTIONS 0 "?slot + 20" ?num class_ids confs boxes t] lv ix
    by simp
  have li: "length (image_bytes frame640) = INPUT_WIDTH * INPUT_HEIGHT * CHANNELS"
    by simp
  have img: "(if mat_total_times_elemSize frame640 = INPUT_WIDTH * INPUT_HEIGHT * CHANNELS
        then memcpy p (take (INPUT_WIDTH * INPUT_HEIGHT * CHANNELS) (mat_data frame640)) t
        else memset p 0 (INPUT_WIDTH * INPUT_HEIGHT * CHANNELS) t)
      = memcpy p (image_bytes frame640) t" for p t
    by (simp add: image_bytes_def memset_def)
  have rd0: "rd32 (mem s) 0 = ?w"
    by (simp add: write_index_def)
  show ?thesis
    unfolding write_frame_def post_def
    using sem
    by (simp add: WaitForSingleObject_mutex_Inr mu ctrl_read_def ctrl_write_def sizeof_int_def
        cv hv memcpy_Inr loop img li iv rd0 Let_def merge_slot length_loop_bytes
        slot_bytes_def header_bytes_def body_events_def next_index_def
        del: WaitForSingleObject.simps(3))
qed

lemma subscript_eq_Inr:
  "subscript v xs i s = Inr r \<longleftrightarrow> i < length xs \<and> r = (xs ! i, s\<lparr>trace := trace s @ [EvIndex v i]\<rparr>)"
  by (auto simp: subscript_def)

lemma memcpy_eq_Inr:
  "memcpy p bs s = Inr r \<longleftrightarrow>
     in_view p (length bs) \<and>
     r = s\<lparr>mem := store_bytes (mem s) p bs, trace := trace s @ [EvStore p (length bs)]\<rparr>"
  by (auto simp: memcpy_def)

lemma write_detection_returns:
  assumes "write_detection p i class_ids confs boxes s = Inr r"
  shows "i < length class_ids \<and> i < length confs \<and> i < length boxes \<and> in_view p 24"
  using assms unfolding write_detection_def
  by (auto simp: and_then_eq_Inr subscript_eq_Inr memcpy_eq_Inr in_view_def)

lemma detections_loop_returns:
  assumes "detections_loop i num p class_ids confs boxes s = Inr r"
  shows "indices_ok i num class_ids confs boxes
    \<and> (i < MAX_DETECTIONS \<longrightarrow> in_view p 24)"
  using assms
proof (induction i num p class_ids confs boxes s rule: detections_loop.induct)
  case (1 i num p class_ids confs boxes s)
  show ?case
  proof (cases "i < MAX_DETECTIONS")
    case False
    then show ?thesis by (simp add: indices_ok_def)
  next
    case lt: True
    show ?thesis
    proof (cases "int i < sint num")
      case True
      from "1.prems" lt True obtain p' s' where
        wd: "write_detection p i class_ids confs boxes s = Inr (p', s')"
        and rest: "detections_loop (i + 1) num p' class_ids confs boxes s' = Inr r"
        by (subst (asm) detections_loop.simps) (auto simp: and_then_eq_Inr)
      from "1.IH"(1) [OF lt True rest]
      have ih: "indices_ok (i + 1) num class_ids confs boxes" by simp
      have "indices_ok i num class_ids confs boxes"
        unfolding indices_ok_def
      proof (intro allI impI)
        fix j assume j: "i \<le> j \<and> j < MAX_DETECTIONS \<and> int j < sint num"
        show "j < length class_ids \<and> j < length confs \<and> j < length boxes"
        proof (cases "j = i")
          case True
          with write_detection_returns [OF wd] show ?thesis by simp
        next
          case False
          with j ih show ?thesis by (simp add: indices_ok_def)
        qed
      qed
      with write_detection_returns [OF wd] show ?thesis by simp
    next
      case False
      from "1.prems" lt False obtain s' where
        ms: "memset p 0 24 s = Inr s'"
        and rest: "detections_loop (i + 1) num (p + 24) class_ids confs boxes s' = Inr r"
        by (subst (asm) detections_loop.simps) (auto simp: and_then_eq_Inr)
      from "1.IH"(2) [OF lt False rest]
      have ih: "indices_ok (i + 1) num class_ids confs boxes" by simp
      have "indices_ok i num class_ids confs boxes"
        using ih False unfolding indices_ok_def
        by (metis Suc_eq_plus1 Suc_leI le_neq_implies_less)
      moreover from ms have "in_view p 24"
        by (simp add: memset_def memcpy_eq_Inr)
      ultimately show ?thesis by simp
    qed
  qed
qed

lemma slot_in_view_index:
  assumes "in_view (slot_offset w) 4"
  shows "0 \<le> sint w \<and> sint w < int QUEUE_SIZE"
proof -
  have ss: "int SLOT_SIZE = 1233620" "int SHM_SIZE = 6168112"
    by (simp_all add: SHM_SIZE_def SLOT_SIZE_def sizeof_int_def DET_RECORD_SIZE_def
        MAX_DETECTIONS_def INPUT_WIDTH_def INPUT_HEIGHT_def CHANNELS_def QUEUE_SIZE_def)
  from assms have "0 \<le> 12 + sint w * 1233620" "12 + sint w * 1233620 + 4 \<le> 6168112"
    by (simp_all add: in_view_def slot_offset_def ss sizeof_int_def)
  then show ?thesis
    by (simp add: QUEUE_SIZE_def)
qed

lemma write_frame_returns:
  assumes "write_frame frame_id frame640 class_ids confs boxes s = Inr s'"
  shows "enabled class_ids confs boxes s"
proof -
  from assms obtain s1 s2 w s3 s4 s5 s6 s7 s8 r where
    a: "WaitForSingleObject H_semEmpty s = Inr s1"
      "WaitForSingleObject H_mutex s1 = Inr s2"
      "ctrl_read 0 s2 = Inr (w, s3)"
      "memcpy (slot_offset w) (le32 frame_id) s3 = Inr s4"
      "detections_loop 0 (clamped_num boxes) (slot_offset w + 20) class_ids confs boxes s8 = Inr r"
    unfolding write_frame_def
    by (auto simp: and_then_eq_Inr Let_def)
  from a(1) have sem: "0 < cnt_semEmpty s"
    and s1: "own_mutex s1 = own_mutex s" "mem s1 = mem s"
    by (auto split: if_splits)
  from a(2) s1 have mu: "own_mutex s \<noteq> OwnedByOther" and s2: "mem s2 = mem s"
    by (auto split: mutex_state.splits)
  from a(3) s2 have w: "w = write_index s"
    by (auto simp: ctrl_read_def write_index_def Let_def split: if_splits)
  from a(4) have "in_view (slot_offset w) 4"
    by (simp add: memcpy_eq_Inr)
  then have "0 \<le> sint w \<and> sint w < int QUEUE_SIZE"
    by (rule slot_in_view_index)
  with sem mu w detections_loop_returns [OF a(5)] show ?thesis
    by (simp add: enabled_def ready_def)
qed

lemma write_frame_eq_Inr:
  "write_frame frame_id frame640 class_ids confs boxes s = Inr s' \<longleftrightarrow>
     enabled class_ids confs boxes s \<and> s' = post frame_id frame640 class_ids confs boxes s"
  using write_frame_returns [of frame_id frame640 class_ids confs boxes s s']
    write_frame_Inr [of class_ids confs boxes s frame_id frame640]
  by auto

subsection \<open>Reading the view after a call\<close>

lemma read_bytes_eq:
  assumes "\<And>a. p \<le> a \<Longrightarrow> a < p + int (length bs) \<Longrightarrow> m a = bs ! nat (a - p)"
    and "d + n \<le> length bs"
  shows "read_bytes m (p + int d) n = take n (drop d bs)"
proof (rule nth_equalityI)
  show "length (read_bytes m (p + int d) n) = length (take n (drop d bs))"
    using assms(2) by (simp add: read_bytes_def)
next
  fix i
  assume "i < length (read_bytes m (p + int d) n)"
  then have i: "i < n" by (simp add: read_bytes_def)
  have "m (p + int d + int i) = bs ! nat (p + int d + int i - p)"
    using i assms(2) by (intro assms(1)) auto
  moreover have "nat (p + int d + int i - p) = d + i" by simp
  ultimately show "read_bytes m (p + int d) n ! i = take n (drop d bs) ! i"
    using i assms(2) by (simp add: read_bytes_def)
qed

lemma read_bytes_4: "read_bytes m p 4 = [m p, m (p + 1), m (p + 2), m (p + 3)]"
proof -
  have "[0..<4] = [0, 1, 2, 3::nat]"
    by (simp add: upt_rec)
  then show ?thesis
    by (simp add: read_bytes_def)
qed

lemma rd32_read_bytes: "read_bytes m p 4 = le32 w \<Longrightarrow> rd32 m p = w"
  using le32_recombine [of w] by (simp add: read_bytes_4 rd32_def le32_def)

lemma mem_ReleaseMutex [simp]: "mem (ReleaseMutex s) = mem s"
  by (simp add: ReleaseMutex_def split: mutex_state.splits)

lemma mem_ReleaseSemaphore [simp]: "mem (ReleaseSemaphore h s) = mem s"
  by (simp add: ReleaseSemaphore_def split: handle.splits)

lemma trace_ReleaseMutex [simp]: "trace (ReleaseMutex s) = trace s @ [EvRelease H_mutex]"
  by (simp add: ReleaseMutex_def split: mutex_state.splits)

lemma trace_ReleaseSemaphore [simp]: "trace (ReleaseSemaphore h s) = trace s @ [EvRelease h]"
  by (simp add: ReleaseSemaphore_def split: handle.splits)

lemma mem_post:
  "mem (post frame_id frame640 class_ids confs boxes s) =
     (let m1 = store_bytes (mem s) (slot_offset (write_index s))
                 (slot_bytes frame_id frame640 class_ids confs boxes);
          m2 = store_bytes m1 0 (le32 (next_index (write_index s)))
      in store_bytes m2 8 (le32 (rd32 m2 8 + 1)))"
  by (simp add: post_def Let_def)

lemma trace_post:
  "trace (post frame_id frame640 class_ids confs boxes s) =
     trace s @ [EvWait H_semEmpty, EvWait H_mutex]
       @ body_events (slot_offset (write_index s)) (clamped_num boxes)
       @ [EvRelease H_mutex, EvRelease H_semFull]"
  by (simp add: post_def Let_def)

lemma slot_offset_ge:
  "0 \<le> sint w \<Longrightarrow> 12 \<le> slot_offset w"
  by (simp add: slot_offset_def sizeof_int_def)

lemma mem_post_slot:
  assumes "0 \<le> sint (write_index s)"
    and "slot_offset (write_index s) \<le> a" "a < slot_offset (write_index s) + int SLOT_SIZE"
  shows "mem (post frame_id frame640 class_ids confs boxes s) a =
    slot_bytes frame_id frame640 class_ids confs boxes ! nat (a - slot_offset (write_index s))"
  using assms slot_offset_ge [OF assms(1)]
  by (simp add: mem_post Let_def store_bytes_def)

lemma mem_post_outside:
  assumes "a < slot_offset (write_index s) \<or> slot_offset (write_index s) + int SLOT_SIZE \<le> a"
    and "\<not> (0 \<le> a \<and> a < 4)" "\<not> (8 \<le> a \<and> a < 12)"
  shows "mem (post frame_id frame640 class_ids confs boxes s) a = mem s a"
  using assms by (auto simp: mem_post Let_def store_bytes_def)

lemma read_bytes_post_slot:
  assumes "0 \<le> sint (write_index s)" and "d + n \<le> SLOT_SIZE"
  shows "read_bytes (mem (post frame_id frame640 class_ids confs boxes s))
      (slot_offset (write_index s) + int d) n
    = take n (drop d (slot_bytes frame_id frame640 class_ids confs boxes))"
  using assms by (intro read_bytes_eq) (simp_all add: mem_post_slot)

lemma SLOT_SIZE_value: "SLOT_SIZE = 1233620"
  by (simp add: SLOT_SIZE_def sizeof_int_def DET_RECORD_SIZE_def MAX_DETECTIONS_def
      INPUT_WIDTH_def INPUT_HEIGHT_def CHANNELS_def)

lemma SHM_SIZE_value: "SHM_SIZE = 6168112"
  by (simp add: SHM_SIZE_def SLOT_SIZE_value sizeof_int_def QUEUE_SIZE_def)

lemma slot_offset_of_nat:
  assumes "i < QUEUE_SIZE"
  shows "slot_offset (word_of_nat i) = 12 + int i * int SLOT_SIZE"
proof -
  from assms have "i < 2 ^ 31" by (simp add: QUEUE_SIZE_def)
  then show ?thesis
    by (simp add: slot_offset_def sizeof_int_def sint_word_of_nat_small)
qed

subsection \<open>The start of \<^verbatim>\<open>main\<close>\<close>

lemma rd32_store_bytes_mid:
  "rd32 (store_bytes m p (as @ le32 w @ cs)) (p + int (length as)) = w"
  using read_bytes_store_bytes [of m p as "le32 w" cs] by (intro rd32_read_bytes) simp

lemma rd32_store_bytes_other:
  "q + 4 \<le> p \<or> p + int (length bs) \<le> q \<Longrightarrow> rd32 (store_bytes m p bs) q = rd32 m q"
  by (intro rd32_cong) (auto simp: store_bytes_def)

lemma main_init_Inr:
  "\<not> shm_refused k \<Longrightarrow> \<not> view_refused k \<Longrightarrow> main_init k = Inr (initialised k)"
proof -
  assume k: "\<not> shm_refused k" "\<not> view_refused k"
  have v: "in_view 0 4" "in_view 4 4" "in_view 8 4"
    by (simp_all add: in_view_def SHM_SIZE_value)
  have "store_bytes (store_bytes (store_bytes m 0 (le32 a)) 4 (le32 b)) 8 (le32 c)
      = store_bytes m 0 (le32 a @ le32 b @ le32 c)" for m a b c
    using store_bytes_append [of m 0 "le32 a" "le32 b"]
      store_bytes_append [of m 0 "le32 a @ le32 b" "le32 c"]
    by simp
  with k v show ?thesis
    by (simp add: main_init_def ctrl_write_def sizeof_int_def memcpy_Inr initialised_def
        open_objects_def)
qed

lemma main_init_eq_Inr:
  "main_init k = Inr s \<longleftrightarrow> \<not> shm_refused k \<and> \<not> view_refused k \<and> s = initialised k"
  using main_init_Inr [of k] by (auto simp: main_init_def)

lemma control_block_initialised:
  "write_index (initialised k) = 0" "read_index (initialised k) = 0"
  "total_written (initialised k) = 0"
proof -
  show "write_index (initialised k) = 0"
    using rd32_store_bytes_mid [of _ 0 "[]" 0 "le32 0 @ le32 0"]
    by (simp add: write_index_def initialised_def)
  show "read_index (initialised k) = 0"
    using rd32_store_bytes_mid [of _ 0 "le32 0" 0 "le32 0"]
    by (simp add: read_index_def initialised_def)
  show "total_written (initialised k) = 0"
    using rd32_store_bytes_mid [of _ 0 "le32 0 @ le32 0" 0 "[]"]
    by (simp add: total_written_def initialised_def)
qed

subsection \<open>The events of a call\<close>

lemma loop_events_cases:
  assumes "e \<in> set (loop_events q num i)"
  shows "(\<exists>p n. e = EvStore p n \<and> q + 24 * int i \<le> p \<and> p + int n \<le> q + 24 * int MAX_DETECTIONS)
    \<or> (\<exists>v j. e = EvIndex v j \<and> i \<le> j \<and> j < MAX_DETECTIONS \<and> int j < sint num)"
proof -
  from assms obtain j where j: "i \<le> j" "j < MAX_DETECTIONS"
    and e: "e \<in> set (if int j < sint num then det_events (q + 24 * int j) j
                     else [EvStore (q + 24 * int j) 24])"
    by (auto simp: loop_events_def)
  show ?thesis
  proof (cases "int j < sint num")
    case True
    with e j show ?thesis
      by (auto simp: det_events_def)
  next
    case False
    with e j show ?thesis
      by auto
  qed
qed

lemma body_events_cases:
  assumes "e \<in> set (body_events slot num)"
  shows "e = EvLoad 0 4 \<or> e = EvLoad 8 4 \<or> e = EvStore 0 4 \<or> e = EvStore 8 4
    \<or> (\<exists>p n. e = EvStore p n \<and> slot \<le> p \<and> p + int n \<le> slot + int SLOT_SIZE)
    \<or> (\<exists>v j. e = EvIndex v j \<and> j < MAX_DETECTIONS \<and> int j < sint num)"
proof -
  note ss = SLOT_SIZE_value MAX_DETECTIONS_def INPUT_WIDTH_def INPUT_HEIGHT_def CHANNELS_def
  from assms consider
    "e \<in> {EvLoad 0 4, EvStore slot 4, EvStore (slot + 4) 4, EvStore (slot + 8) 4,
          EvStore (slot + 12) 4, EvStore (slot + 16) 4}"
    | "e \<in> set (loop_events (slot + 20) num 0)"
    | "e \<in> {EvStore (slot + 20 + 24 * int MAX_DETECTIONS) (INPUT_WIDTH * INPUT_HEIGHT * CHANNELS),
          EvStore 0 4, EvLoad 8 4, EvStore 8 4}"
    by (auto simp: body_events_def)
  then show ?thesis
  proof cases
    case 1
    then show ?thesis by (auto simp: ss)
  next
    case 2
    from loop_events_cases [OF 2] show ?thesis by (auto simp: ss)
  next
    case 3
    then show ?thesis by (auto simp: ss)
  qed
qed

lemma new_events_post:
  "new_events s (post frame_id frame640 class_ids confs boxes s) =
     [EvWait H_semEmpty, EvWait H_mutex]
       @ body_events (slot_offset (write_index s)) (clamped_num boxes)
       @ [EvRelease H_mutex, EvRelease H_semFull]"
  by (simp add: new_events_def trace_post)

lemma read_bytes_cong:
  "(\<And>a. p \<le> a \<Longrightarrow> a < p + int n \<Longrightarrow> m a = m' a) \<Longrightarrow> read_bytes m p n = read_bytes m' p n"
  by (simp add: read_bytes_def)

lemma slots_disjoint:
  assumes "sint w \<noteq> sint w'"
  shows "slot_offset w + int SLOT_SIZE \<le> slot_offset w' \<or> slot_offset w' + int SLOT_SIZE \<le> slot_offset w"
proof (cases "sint w < sint w'")
  case True
  then have "(sint w + 1) * int SLOT_SIZE \<le> sint w' * int SLOT_SIZE"
    by (intro mult_right_mono) simp_all
  then show ?thesis
    by (simp add: slot_offset_def algebra_simps)
next
  case False
  with assms have "(sint w' + 1) * int SLOT_SIZE \<le> sint w * int SLOT_SIZE"
    by (intro mult_right_mono) simp_all
  then show ?thesis
    by (simp add: slot_offset_def algebra_simps)
qed

subsection \<open>The concrete inputs\<close>

lemma fresh_state_fields:
  "cnt_semEmpty (initialised no_objects) = QUEUE_SIZE"
  "cnt_semFull (initialised no_objects) = 0"
  "own_mutex (initialised no_objects) = Unowned"
  "trace (initialised no_objects) = [EvStore 0 4, EvStore 4 4, EvStore 8 4]"
  by (simp_all add: initialised_def open_objects_def no_objects_def)

lemma fresh_state_ready: "ready (initialised no_objects)"
  by (simp add: ready_def fresh_state_fields control_block_initialised QUEUE_SIZE_def)

lemma scenario_clamped_num: "clamped_num scenario_boxes = 2"
  by (simp add: clamped_num_def scenario_boxes_def MAX_DETECTIONS_def)

lemma scenario_enabled:
  "enabled scenario_class_ids scenario_confs scenario_boxes (initialised no_objects)"
proof -
  have "indices_ok 0 2 scenario_class_ids scenario_confs scenario_boxes"
    by (simp add: indices_ok_def scenario_class_ids_def scenario_confs_def scenario_boxes_def)
  then show ?thesis
    by (simp add: enabled_def fresh_state_ready scenario_clamped_num)
qed

lemma scenario_returns:
  "write_frame 1 scenario_image scenario_class_ids scenario_confs scenario_boxes
     (initialised no_objects)
   = Inr (post 1 scenario_image scenario_class_ids scenario_confs scenario_boxes
       (initialised no_objects))"
  by (rule write_frame_Inr [OF scenario_enabled])

lemma fresh_slot_offset: "slot_offset (write_index (initialised no_objects)) = 12"
  by (simp add: control_block_initialised slot_offset_def sizeof_int_def)

lemma existing_fields:
  "cnt_semEmpty (open_objects existing_objects) = 4"
  "own_mutex (open_objects existing_objects) = Unowned"
  "\<not> shm_refused existing_objects" "\<not> view_refused existing_objects"
  "obj_shm existing_objects \<noteq> None"
  by (simp_all add: open_objects_def existing_objects_def)

lemma existing_control_block:
  "write_index (open_objects existing_objects) = 3"
  "read_index (open_objects existing_objects) = 2"
  "total_written (open_objects existing_objects) = 8"
proof -
  have m: "mem (open_objects existing_objects) = store_bytes (\<lambda>a. 0) 0 (le32 3 @ le32 2 @ le32 8)"
    by (simp add: open_objects_def existing_objects_def)
  show "write_index (open_objects existing_objects) = 3"
    using rd32_store_bytes_mid [of _ 0 "[]" 3 "le32 2 @ le32 8"]
    by (simp add: write_index_def m)
  show "read_index (open_objects existing_objects) = 2"
    using rd32_store_bytes_mid [of _ 0 "le32 3" 2 "le32 8"]
    by (simp add: read_index_def m)
  show "total_written (open_objects existing_objects) = 8"
    using rd32_store_bytes_mid [of _ 0 "le32 3 @ le32 2" 8 "[]"]
    by (simp add: total_written_def m)
qed

lemma existing_main_init: "main_init existing_objects = Inr (initialised existing_objects)"
  by (rule main_init_Inr) (simp_all add: existing_fields)

lemma existing_scenario_returns:
  "write_frame 1 scenario_image scenario_class_ids scenario_confs scenario_boxes
     (open_objects existing_objects)
   = Inr (post 1 scenario_image scenario_class_ids scenario_confs scenario_boxes
       (open_objects existing_objects))"
proof -
  have "ready (open_objects existing_objects)"
    by (simp add: ready_def existing_fields existing_control_block QUEUE_SIZE_def)
  moreover have "indices_ok 0 2 scenario_class_ids scenario_confs scenario_boxes"
    by (simp add: indices_ok_def scenario_class_ids_def scenario_confs_def scenario_boxes_def)
  ultimately have "enabled scenario_class_ids scenario_confs scenario_boxes
      (open_objects existing_objects)"
    by (simp add: enabled_def scenario_clamped_num)
  then show ?thesis
    by (rule write_frame_Inr)
qed


subsection \<open>The code's bytes and the specification's layout\<close>

lemma sint_clamped_num_le:
  "sint (clamped_num boxes) \<le> int (length boxes) \<and> sint (clamped_num boxes) \<le> int MAX_DETECTIONS"
proof (cases "sint (word_of_nat (length boxes) :: i32) > int MAX_DETECTIONS")
  case True
  have "sint (word_of_nat MAX_DETECTIONS :: i32) = int MAX_DETECTIONS"
    by (intro sint_word_of_nat_small) (simp add: MAX_DETECTIONS_def)
  moreover from True sint_word_of_nat_le [of "length boxes"]
  have "int MAX_DETECTIONS \<le> int (length boxes)" by linarith
  ultimately show ?thesis
    using True by (simp add: clamped_num_def)
next
  case False
  with sint_word_of_nat_le [of "length boxes"] show ?thesis
    by (simp add: clamped_num_def)
qed

lemma clamped_num_small:
  assumes "length boxes < 2 ^ 31"
  shows "clamped_num boxes = word_of_nat (min (length boxes) MAX_DETECTIONS)"
    and "sint (clamped_num boxes) = int (min (length boxes) MAX_DETECTIONS)"
proof -
  have l: "sint (word_of_nat (length boxes) :: i32) = int (length boxes)"
    using assms by (rule sint_word_of_nat_small)
  show c: "clamped_num boxes = word_of_nat (min (length boxes) MAX_DETECTIONS)"
    by (simp add: clamped_num_def l min_def)
  have "min (length boxes) MAX_DETECTIONS < 2 ^ 31"
    using assms by simp
  then show "sint (clamped_num boxes) = int (min (length boxes) MAX_DETECTIONS)"
    unfolding c by (rule sint_word_of_nat_small)
qed

lemma parallel_indices_ok:
  assumes "length class_ids = length boxes" "length confs = length boxes"
  shows "indices_ok i (clamped_num boxes) class_ids confs boxes"
  using assms sint_clamped_num_le [of boxes] by (auto simp: indices_ok_def)

lemma parallel_enabled:
  "length class_ids = length boxes \<Longrightarrow> length confs = length boxes \<Longrightarrow> ready s \<Longrightarrow>
   enabled class_ids confs boxes s"
  by (simp add: enabled_def parallel_indices_ok)

lemma concat_chunk:
  "\<forall>x \<in> set xs. length (f x) = n \<Longrightarrow> i < length xs \<Longrightarrow>
   take n (drop (i * n) (concat (map f xs))) = f (xs ! i)"
proof (induction xs arbitrary: i)
  case Nil
  then show ?case by simp
next
  case (Cons x xs)
  show ?case
  proof (cases i)
    case 0
    with Cons.prems show ?thesis by simp
  next
    case (Suc j)
    with Cons.prems have "take n (drop (j * n) (concat (map f xs))) = f (xs ! j)"
      by (intro Cons.IH) simp_all
    with Suc Cons.prems show ?thesis by simp
  qed
qed

lemma loop_bytes_chunk:
  assumes "i < MAX_DETECTIONS"
  shows "take 24 (drop (i * 24) (loop_bytes 0 num class_ids confs boxes)) =
    (if int i < sint num then encode_detection (class_ids ! i) (confs ! i) (boxes ! i)
     else replicate 24 0)"
  unfolding loop_bytes_def using assms
  by (subst concat_chunk) simp_all

lemma encode_detection_spec:
  "encode_detection c f b = spec_detection (c, f, b)"
  by (simp add: encode_detection_def spec_detection_def)

lemma loop_bytes_spec:
  assumes len: "length class_ids = length boxes" "length confs = length boxes"
    and n: "sint num = int n" "n \<le> length boxes" "n \<le> MAX_DETECTIONS"
  shows "loop_bytes 0 num class_ids confs boxes =
    concat (map spec_detection (take n (detections_of class_ids confs boxes)))
      @ replicate (24 * (MAX_DETECTIONS - n)) 0"
proof -
  let ?g = "\<lambda>j. if int j < sint num
      then encode_detection (class_ids ! j) (confs ! j) (boxes ! j) else replicate 24 0"
  have split: "[0..<MAX_DETECTIONS] = [0..<n] @ [n..<MAX_DETECTIONS]"
    using n(3) upt_add_eq_append [of 0 n "MAX_DETECTIONS - n"] by simp
  have a: "map ?g [0..<n] = map spec_detection (take n (detections_of class_ids confs boxes))"
  proof (rule nth_equalityI)
    show "length (map ?g [0..<n])
        = length (map spec_detection (take n (detections_of class_ids confs boxes)))"
      using len n(2) by (simp add: detections_of_def)
  next
    fix j assume "j < length (map ?g [0..<n])"
    then have j: "j < n" by simp
    with len n show "map ?g [0..<n] ! j
        = map spec_detection (take n (detections_of class_ids confs boxes)) ! j"
      by (simp add: detections_of_def encode_detection_spec)
  qed
  have "map ?g [n..<MAX_DETECTIONS] = map (\<lambda>j. replicate 24 0) [n..<MAX_DETECTIONS]"
    using n(1) by (intro map_cong) simp_all
  also have "\<dots> = replicate (MAX_DETECTIONS - n) (replicate 24 0)"
    by (simp add: map_replicate_const)
  finally have b: "concat (map ?g [n..<MAX_DETECTIONS]) = replicate (24 * (MAX_DETECTIONS - n)) 0"
    by (simp add: concat_replicate_replicate mult.commute)
  show ?thesis
    unfolding loop_bytes_def split using a b by simp
qed

lemma prefix_spec:
  assumes "length class_ids = length boxes" "length confs = length boxes"
    and "length boxes < 2 ^ 31"
  shows "header_bytes frame_id (clamped_num boxes)
      @ loop_bytes 0 (clamped_num boxes) class_ids confs boxes
    = spec_record_prefix frame_id (detections_of class_ids confs boxes)"
proof -
  let ?n = "min (length boxes) MAX_DETECTIONS"
  have l: "length (detections_of class_ids confs boxes) = length boxes"
    using assms by (simp add: detections_of_def)
  have "loop_bytes 0 (clamped_num boxes) class_ids confs boxes =
    concat (map spec_detection (take ?n (detections_of class_ids confs boxes)))
      @ replicate (24 * (MAX_DETECTIONS - ?n)) 0"
    using assms clamped_num_small(2) [OF assms(3)] by (intro loop_bytes_spec) simp_all
  moreover have "take ?n (detections_of class_ids confs boxes)
      = take MAX_DETECTIONS (detections_of class_ids confs boxes)"
    using l by (simp add: min_def)
  moreover have "MAX_DETECTIONS - ?n = MAX_DETECTIONS - length boxes"
    by simp
  ultimately show ?thesis
    by (simp add: spec_record_prefix_def spec_detections_def spec_header_def header_bytes_def
        clamped_num_small(1) [OF assms(3)] l DET_RECORD_SIZE_def)
qed

subsection \<open>The fields of a written slot\<close>

lemma length_loop_bytes_0 [simp]:
  "length (loop_bytes 0 num class_ids confs boxes) = 24 * MAX_DETECTIONS"
  using length_loop_bytes [of 0 num class_ids confs boxes] by simp

lemma post_count:
  assumes "0 \<le> sint (write_index s)"
  shows "rd32 (mem (post frame_id frame640 class_ids confs boxes s))
      (slot_offset (write_index s) + 16) = clamped_num boxes"
proof -
  have "read_bytes (mem (post frame_id frame640 class_ids confs boxes s))
      (slot_offset (write_index s) + int 16) 4
    = take 4 (drop 16 (slot_bytes frame_id frame640 class_ids confs boxes))"
    using assms by (rule read_bytes_post_slot) (simp add: SLOT_SIZE_value)
  then show ?thesis
    by (intro rd32_read_bytes) (simp add: slot_bytes_def header_bytes_def)
qed

lemma post_prefix:
  assumes "0 \<le> sint (write_index s)"
  shows "read_bytes (mem (post frame_id frame640 class_ids confs boxes s))
      (slot_offset (write_index s)) (20 + 24 * MAX_DETECTIONS)
    = header_bytes frame_id (clamped_num boxes)
      @ loop_bytes 0 (clamped_num boxes) class_ids confs boxes"
proof -
  have "read_bytes (mem (post frame_id frame640 class_ids confs boxes s))
      (slot_offset (write_index s) + int 0) (20 + 24 * MAX_DETECTIONS)
    = take (20 + 24 * MAX_DETECTIONS) (drop 0 (slot_bytes frame_id frame640 class_ids confs boxes))"
    using assms
    by (rule read_bytes_post_slot) (simp add: SLOT_SIZE_value MAX_DETECTIONS_def)
  then show ?thesis
    by (simp add: slot_bytes_def)
qed

lemma post_records:
  assumes "0 \<le> sint (write_index s)"
  shows "read_bytes (mem (post frame_id frame640 class_ids confs boxes s))
      (slot_offset (write_index s) + 20) (24 * MAX_DETECTIONS)
    = loop_bytes 0 (clamped_num boxes) class_ids confs boxes"
proof -
  have "read_bytes (mem (post frame_id frame640 class_ids confs boxes s))
      (slot_offset (write_index s) + int 20) (24 * MAX_DETECTIONS)
    = take (24 * MAX_DETECTIONS) (drop 20 (slot_bytes frame_id frame640 class_ids confs boxes))"
    using assms
    by (rule read_bytes_post_slot) (simp add: SLOT_SIZE_value MAX_DETECTIONS_def)
  then show ?thesis
    by (simp add: slot_bytes_def)
qed

lemma post_record:
  assumes "0 \<le> sint (write_index s)" and i: "i < MAX_DETECTIONS"
  shows "read_bytes (mem (post frame_id frame640 class_ids confs boxes s))
      (slot_offset (write_index s) + 20 + 24 * int i) 24
    = (if int i < sint (clamped_num boxes)
       then encode_detection (class_ids ! i) (confs ! i) (boxes ! i) else replicate 24 0)"
proof -
  have le: "i * 24 + 24 \<le> 24 * MAX_DETECTIONS"
    using i by simp
  have "read_bytes (mem (post frame_id frame640 class_ids confs boxes s))
      (slot_offset (write_index s) + int (20 + i * 24)) 24
    = take 24 (drop (20 + i * 24) (slot_bytes frame_id frame640 class_ids confs boxes))"
    using assms(1)
    by (rule read_bytes_post_slot) (use i in \<open>simp add: SLOT_SIZE_value MAX_DETECTIONS_def\<close>)
  also have "\<dots> = take 24 (drop (i * 24) (loop_bytes 0 (clamped_num boxes) class_ids confs boxes))"
    using le by (simp add: slot_bytes_def)
  also have "\<dots> = (if int i < sint (clamped_num boxes)
       then encode_detection (class_ids ! i) (confs ! i) (boxes ! i) else replicate 24 0)"
    using i by (rule loop_bytes_chunk)
  finally show ?thesis
    by (simp add: algebra_simps)
qed

lemma post_image:
  assumes "0 \<le> sint (write_index s)"
  shows "read_bytes (mem (post frame_id frame640 class_ids confs boxes s))
      (slot_offset (write_index s) + 20 + 24 * int MAX_DETECTIONS)
      (INPUT_WIDTH * INPUT_HEIGHT * CHANNELS)
    = image_bytes frame640"
proof -
  have "read_bytes (mem (post frame_id frame640 class_ids confs boxes s))
      (slot_offset (write_index s) + int (20 + 24 * MAX_DETECTIONS))
      (INPUT_WIDTH * INPUT_HEIGHT * CHANNELS)
    = take (INPUT_WIDTH * INPUT_HEIGHT * CHANNELS)
        (drop (20 + 24 * MAX_DETECTIONS) (slot_bytes frame_id frame640 class_ids confs boxes))"
    using assms
    by (rule read_bytes_post_slot)
      (simp add: SLOT_SIZE_def sizeof_int_def DET_RECORD_SIZE_def)
  then show ?thesis
    by (simp add: slot_bytes_def algebra_simps)
qed

lemma returns_when_ready:
  assumes "length class_ids = length boxes" "length confs = length boxes" "ready s"
  shows "\<exists>s'. write_frame frame_id frame640 class_ids confs boxes s = Inr s'"
  using write_frame_Inr [OF parallel_enabled [OF assms]] by blast

lemma returned_state:
  assumes "write_frame frame_id frame640 class_ids confs boxes s = Inr s'"
  shows "s' = post frame_id frame640 class_ids confs boxes s" "0 \<le> sint (write_index s)"
  using assms by (simp_all add: write_frame_eq_Inr enabled_def ready_def)

subsection \<open>A run of calls\<close>

lemma write_index_post:
  "write_index (post frame_id frame640 class_ids confs boxes s) = next_index (write_index s)"
proof -
  have "rd32 (store_bytes (store_bytes m 0 (le32 w)) 8 bs) 0 = w" for m w bs
    using rd32_store_bytes_other [of 0 8 bs "store_bytes m 0 (le32 w)"] rd32_le32 [of m 0 w]
    by simp
  then show ?thesis
    by (simp add: write_index_def mem_post Let_def)
qed

lemma sint_next_index:
  assumes "sint w = int k" "k < QUEUE_SIZE"
  shows "sint (next_index w) = int ((k + 1) mod QUEUE_SIZE)"
proof -
  from assms have "0 \<le> sint w" "sint w < 5"
    by (simp_all add: QUEUE_SIZE_def)
  from sint_next_small [OF this] assms(1) have "sint (next_index w) = (int k + 1) mod 5"
    by (simp add: next_index_def QUEUE_SIZE_def)
  also have "\<dots> = int ((k + 1) mod QUEUE_SIZE)"
    by (simp add: QUEUE_SIZE_def zmod_int add.commute)
  finally show ?thesis .
qed

lemma cnt_semEmpty_post:
  "cnt_semEmpty (post frame_id frame640 class_ids confs boxes s) = cnt_semEmpty s - 1"
  by (simp add: post_def Let_def ReleaseSemaphore_def ReleaseMutex_def acquired_def
      split: mutex_state.splits)

lemma own_mutex_post:
  "own_mutex s \<noteq> OwnedByOther \<Longrightarrow>
   own_mutex (post frame_id frame640 class_ids confs boxes s) \<noteq> OwnedByOther"
  by (simp add: post_def Let_def ReleaseSemaphore_def ReleaseMutex_def acquired_def
      split: mutex_state.splits)

lemma slot_offset_int:
  "sint w = int k \<Longrightarrow> slot_offset w = 12 + int k * int SLOT_SIZE"
  by (simp add: slot_offset_def sizeof_int_def)

lemma write_frames_run:
  assumes "\<forall>f \<in> set fs. well_formed f"
    and "sint (write_index s) = int k" "k < QUEUE_SIZE" "k + length fs \<le> QUEUE_SIZE"
    and "length fs \<le> cnt_semEmpty s" "own_mutex s \<noteq> OwnedByOther"
  shows "\<exists>s'. write_frames fs s = Inr s'
    \<and> sint (write_index s') = int ((k + length fs) mod QUEUE_SIZE)
    \<and> (\<forall>i < length fs.
          read_bytes (mem s') (12 + int (k + i) * int SLOT_SIZE) (20 + 24 * MAX_DETECTIONS)
          = spec_prefix_of (fs ! i))
    \<and> (\<forall>a. 12 \<le> a \<and> \<not> (12 + int k * int SLOT_SIZE \<le> a
              \<and> a < 12 + int (k + length fs) * int SLOT_SIZE) \<longrightarrow> mem s' a = mem s a)"
  using assms
proof (induction fs arbitrary: s k)
  case Nil
  then show ?case by simp
next
  case (Cons f fs)
  let ?k' = "(k + 1) mod QUEUE_SIZE"
  let ?s1 = "post (fr_id f) (fr_image f) (fr_class_ids f) (fr_confs f) (fr_boxes f) s"
  from Cons.prems(1) have wf: "well_formed f" and wfs: "\<forall>f \<in> set fs. well_formed f"
    by simp_all
  from wf have len: "length (fr_class_ids f) = length (fr_boxes f)"
    "length (fr_confs f) = length (fr_boxes f)" "length (fr_boxes f) < 2 ^ 31"
    by (simp_all add: well_formed_def)
  have w0: "0 \<le> sint (write_index s)"
    using Cons.prems(2) by simp
  have rdy: "ready s"
    using Cons.prems by (simp add: ready_def)
  have step: "enqueue f s = Inr ?s1"
    unfolding enqueue_def by (rule write_frame_Inr [OF parallel_enabled [OF len(1,2) rdy]])
  have so: "slot_offset (write_index s) = 12 + int k * int SLOT_SIZE"
    using Cons.prems(2) by (rule slot_offset_int)
  have w1: "sint (write_index ?s1) = int ?k'"
    unfolding write_index_post using Cons.prems(2,3) by (rule sint_next_index)
  have k': "?k' < QUEUE_SIZE" "?k' + length fs \<le> QUEUE_SIZE"
    and kk: "fs \<noteq> [] \<Longrightarrow> ?k' = k + 1"
    using Cons.prems(3,4) by (auto simp: QUEUE_SIZE_def mod_Suc)
  have c1: "length fs \<le> cnt_semEmpty ?s1"
    using Cons.prems(5) by (simp add: cnt_semEmpty_post)
  have m1: "own_mutex ?s1 \<noteq> OwnedByOther"
    using Cons.prems(6) by (rule own_mutex_post)
  from Cons.IH [OF wfs w1 k' c1 m1] obtain s' where
    run: "write_frames fs ?s1 = Inr s'"
    and wi: "sint (write_index s') = int ((?k' + length fs) mod QUEUE_SIZE)"
    and pre: "\<forall>i < length fs.
        read_bytes (mem s') (12 + int (?k' + i) * int SLOT_SIZE) (20 + 24 * MAX_DETECTIONS)
        = spec_prefix_of (fs ! i)"
    and fr: "\<forall>a. 12 \<le> a \<and> \<not> (12 + int ?k' * int SLOT_SIZE \<le> a
              \<and> a < 12 + int (?k' + length fs) * int SLOT_SIZE) \<longrightarrow> mem s' a = mem ?s1 a"
    by blast
  have tail_region: "12 + int k * int SLOT_SIZE + int SLOT_SIZE \<le> 12 + int ?k' * int SLOT_SIZE
      \<and> 12 + int (?k' + length fs) * int SLOT_SIZE = 12 + int (k + length (f # fs)) * int SLOT_SIZE"
    if "fs \<noteq> []"
    using kk [OF that] by (simp add: algebra_simps)
  have keep: "mem s' a = mem ?s1 a"
    if "12 \<le> a" "a < 12 + int k * int SLOT_SIZE + int SLOT_SIZE
      \<or> 12 + int (k + length (f # fs)) * int SLOT_SIZE \<le> a" for a
  proof (cases "fs = []")
    case True
    with fr that(1) show ?thesis by simp
  next
    case False
    from tail_region [OF False] that show ?thesis
      by (intro fr [rule_format]) (auto simp: SLOT_SIZE_value)
  qed
  have 1: "write_frames (f # fs) s = Inr s'"
    using step run by simp
  have 2: "sint (write_index s') = int ((k + length (f # fs)) mod QUEUE_SIZE)"
    using wi by (simp add: mod_add_left_eq mod_Suc_eq)
  have 3: "read_bytes (mem s') (12 + int (k + i) * int SLOT_SIZE) (20 + 24 * MAX_DETECTIONS)
      = spec_prefix_of ((f # fs) ! i)" if "i < length (f # fs)" for i
  proof (cases i)
    case 0
    have "read_bytes (mem s') (12 + int k * int SLOT_SIZE) (20 + 24 * MAX_DETECTIONS)
        = read_bytes (mem ?s1) (12 + int k * int SLOT_SIZE) (20 + 24 * MAX_DETECTIONS)"
    proof (rule read_bytes_cong)
      fix a
      assume "12 + int k * int SLOT_SIZE \<le> a"
        "a < 12 + int k * int SLOT_SIZE + int (20 + 24 * MAX_DETECTIONS)"
      then show "mem s' a = mem ?s1 a"
        by (intro keep) (simp_all add: SLOT_SIZE_value MAX_DETECTIONS_def)
    qed
    also have "\<dots> = spec_prefix_of f"
      using post_prefix [OF w0, of "fr_id f" "fr_image f" "fr_class_ids f" "fr_confs f" "fr_boxes f"]
        prefix_spec [OF len, of "fr_id f"]
      by (simp add: so spec_prefix_of_def)
    finally show ?thesis
      using 0 by simp
  next
    case (Suc j)
    with that have j: "j < length fs" by simp
    then have "fs \<noteq> []" by auto
    from kk [OF this] pre [rule_format, OF j] Suc show ?thesis
      by simp
  qed
  have 4: "mem s' a = mem s a"
    if "12 \<le> a" "\<not> (12 + int k * int SLOT_SIZE \<le> a
        \<and> a < 12 + int (k + length (f # fs)) * int SLOT_SIZE)" for a
  proof -
    have "mem s' a = mem ?s1 a"
      using that by (intro keep) (auto simp: SLOT_SIZE_value)
    also have "\<dots> = mem s a"
      using that by (intro mem_post_outside) (auto simp: so SLOT_SIZE_value)
    finally show ?thesis .
  qed
  from 1 2 3 4 show ?case by blast
qed

subsection \<open>The faults of a call\<close>

lemma and_then_eq_Inl:
  "and_then m f = Inl e \<longleftrightarrow> m = Inl e \<or> (\<exists>v. m = Inr v \<and> f v = Inl e)"
  by (cases m) simp_all

lemma memcpy_fault: "memcpy p bs s = Inl e \<Longrightarrow> e = AccessViolation"
  by (simp add: memcpy_def split: if_splits)

lemma memset_fault: "memset p c n s = Inl e \<Longrightarrow> e = AccessViolation"
  unfolding memset_def by (rule memcpy_fault)

lemma ctrl_write_fault: "ctrl_write k v s = Inl e \<Longrightarrow> e = AccessViolation"
  unfolding ctrl_write_def by (rule memcpy_fault)

lemma ctrl_read_fault: "ctrl_read k s = Inl e \<Longrightarrow> e = AccessViolation"
  by (simp add: ctrl_read_def Let_def split: if_splits)

lemma WaitForSingleObject_fault: "WaitForSingleObject h s = Inl e \<Longrightarrow> e = WouldBlock"
  by (cases h) (simp_all split: if_splits mutex_state.splits)

lemma subscript_fault: "subscript v xs i s = Inl e \<Longrightarrow> \<not> i < length xs"
  by (simp add: subscript_def split: if_splits)

lemma write_detection_fault:
  assumes "write_detection p i class_ids confs boxes s = Inl e"
    and "i < length class_ids" "i < length confs" "i < length boxes"
  shows "e = AccessViolation"
  using assms unfolding write_detection_def
  by (auto simp: and_then_eq_Inl dest: memcpy_fault subscript_fault)

lemma detections_loop_fault:
  assumes "detections_loop i num p class_ids confs boxes s = Inl e"
    and "indices_ok i num class_ids confs boxes"
  shows "e = AccessViolation"
  using assms
proof (induction i num p class_ids confs boxes s rule: detections_loop.induct)
  case (1 i num p class_ids confs boxes s)
  from "1.prems"(1) have lt: "i < MAX_DETECTIONS"
    by (subst (asm) detections_loop.simps) (simp split: if_splits)
  note ok = indices_ok_Suc [OF "1.prems"(2)]
  show ?case
  proof (cases "int i < sint num")
    case True
    from "1.prems"(1) lt True consider
      "write_detection p i class_ids confs boxes s = Inl e"
      | p' s' where "detections_loop (i + 1) num p' class_ids confs boxes s' = Inl e"
      by (subst (asm) detections_loop.simps) (auto simp: and_then_eq_Inl)
    then show ?thesis
    proof cases
      case 1
      from write_detection_fault [OF 1] indices_ok_here [OF "1.prems"(2) lt True]
      show ?thesis by simp
    next
      case 2
      from "1.IH"(1) [OF lt True 2] ok show ?thesis by simp
    qed
  next
    case False
    from "1.prems"(1) lt False consider
      "memset p 0 24 s = Inl e"
      | s' where "detections_loop (i + 1) num (p + 24) class_ids confs boxes s' = Inl e"
      by (subst (asm) detections_loop.simps) (auto simp: and_then_eq_Inl)
    then show ?thesis
    proof cases
      case 1
      then show ?thesis by (rule memset_fault)
    next
      case 2
      from "1.IH"(2) [OF lt False 2] ok show ?thesis by simp
    qed
  qed
qed

lemma write_frame_fault:
  assumes "write_frame frame_id frame640 class_ids confs boxes s = Inl e"
    and "indices_ok 0 (clamped_num boxes) class_ids confs boxes"
  shows "e = WouldBlock \<or> e = AccessViolation"
  using assms(1) unfolding write_frame_def
  by (auto simp: and_then_eq_Inl Let_def simp del: WaitForSingleObject.simps
      dest: memcpy_fault memset_fault ctrl_write_fault ctrl_read_fault
        WaitForSingleObject_fault detections_loop_fault [OF _ assms(2)] split: if_splits)

subsection \<open>The sections of a call\<close>








section \<open>The claims\<close>

subsection \<open>First in, first out\<close>

text \<open>
  Claim C1. Start with the control block holding write index 0, and make at most
  \<^verbatim>\<open>QUEUE_SIZE\<close> = 5 calls one after the other, each well formed, with \<^verbatim>\<open>semEmpty\<close>
  counting at least as many free slots as there are calls and the mutex not held by
  another process (the state \<^verbatim>\<open>main\<close> leaves when it has created all objects is one such
  state). Then every call returns; in the end slot \<open>i\<close> holds, byte for byte, the
  header and the \<^verbatim>\<open>MAX_DETECTIONS\<close> detection records that the specification's layout
  gives the \<open>i\<close>-th frame enqueued; and after the first \<open>k\<close> calls the write index is
  \<open>k mod QUEUE_SIZE\<close>, for every \<open>k\<close> up to the number of calls.
\<close>

theorem fifo_slots:
  assumes "write_index s = 0" "length fs \<le> QUEUE_SIZE" "length fs \<le> cnt_semEmpty s"
    and "own_mutex s \<noteq> OwnedByOther" "\<forall>f \<in> set fs. well_formed f"
  shows "\<exists>s'. write_frames fs s = Inr s'
    \<and> (\<forall>i < length fs.
          read_bytes (mem s') (slot_offset (word_of_nat i)) (20 + 24 * MAX_DETECTIONS)
          = spec_prefix_of (fs ! i))
    \<and> (\<forall>k \<le> length fs. \<exists>sk. write_frames (take k fs) s = Inr sk
          \<and> sint (write_index sk) = int (k mod QUEUE_SIZE))"
proof -
  have w: "sint (write_index s) = int 0" "0 < QUEUE_SIZE"
    using assms(1) by (simp_all add: QUEUE_SIZE_def)
  from write_frames_run [OF assms(5) w] assms(2,3,4) obtain s' where
    run: "write_frames fs s = Inr s'"
    and pre: "\<forall>i < length fs.
        read_bytes (mem s') (12 + int (0 + i) * int SLOT_SIZE) (20 + 24 * MAX_DETECTIONS)
        = spec_prefix_of (fs ! i)"
    by auto
  have 1: "read_bytes (mem s') (slot_offset (word_of_nat i)) (20 + 24 * MAX_DETECTIONS)
      = spec_prefix_of (fs ! i)" if "i < length fs" for i
  proof -
    from that assms(2) have "i < QUEUE_SIZE" by simp
    from slot_offset_of_nat [OF this] pre that show ?thesis by simp
  qed
  have 2: "\<exists>sk. write_frames (take k fs) s = Inr sk
      \<and> sint (write_index sk) = int (k mod QUEUE_SIZE)" if "k \<le> length fs" for k
  proof -
    have "\<forall>f \<in> set (take k fs). well_formed f"
      using assms(5) by (meson in_set_takeD)
    from write_frames_run [OF this w, of ] that assms(2,3,4) show ?thesis
      by auto
  qed
  from run 1 2 show ?thesis by blast
qed

text \<open>
  Two frames enqueued after a fresh start: the scenario's frame lands in slot 0, a
  frame without detections in slot 1, and the write index is 2.
\<close>

theorem fifo_slots_witness:
  "write_index (initialised no_objects) = 0
   \<and> length [first_frame, second_frame] \<le> QUEUE_SIZE
   \<and> length [first_frame, second_frame] \<le> cnt_semEmpty (initialised no_objects)
   \<and> own_mutex (initialised no_objects) \<noteq> OwnedByOther
   \<and> well_formed first_frame \<and> well_formed second_frame
   \<and> (\<exists>s'. write_frames [first_frame, second_frame] (initialised no_objects) = Inr s'
        \<and> read_bytes (mem s') 12 (20 + 24 * 200) = spec_prefix_of first_frame
        \<and> read_bytes (mem s') (12 + 1233620) (20 + 24 * 200) = spec_prefix_of second_frame
        \<and> sint (write_index s') = 2)"
proof -
  have h: "write_index (initialised no_objects) = 0"
    "length [first_frame, second_frame] \<le> QUEUE_SIZE"
    "length [first_frame, second_frame] \<le> cnt_semEmpty (initialised no_objects)"
    "own_mutex (initialised no_objects) \<noteq> OwnedByOther"
    by (simp_all add: control_block_initialised fresh_state_fields QUEUE_SIZE_def)
  have wf: "well_formed first_frame" "well_formed second_frame"
    by (simp_all add: well_formed_def first_frame_def second_frame_def scenario_class_ids_def
        scenario_confs_def scenario_boxes_def)
  then have wfs: "\<forall>f \<in> set [first_frame, second_frame]. well_formed f"
    by simp
  from fifo_slots [OF h wfs] obtain s' where
    run: "write_frames [first_frame, second_frame] (initialised no_objects) = Inr s'"
    and pre: "\<forall>i < length [first_frame, second_frame].
        read_bytes (mem s') (slot_offset (word_of_nat i)) (20 + 24 * MAX_DETECTIONS)
        = spec_prefix_of ([first_frame, second_frame] ! i)"
    and idx: "\<forall>k \<le> length [first_frame, second_frame].
        \<exists>sk. write_frames (take k [first_frame, second_frame]) (initialised no_objects) = Inr sk
          \<and> sint (write_index sk) = int (k mod QUEUE_SIZE)"
    by blast
  have "read_bytes (mem s') (slot_offset (word_of_nat 0)) (20 + 24 * MAX_DETECTIONS)
      = spec_prefix_of ([first_frame, second_frame] ! 0)"
    by (rule pre [rule_format]) simp
  then have a: "read_bytes (mem s') 12 (20 + 24 * 200) = spec_prefix_of first_frame"
    by (simp add: slot_offset_def sizeof_int_def MAX_DETECTIONS_def)
  have "read_bytes (mem s') (slot_offset (word_of_nat 1)) (20 + 24 * MAX_DETECTIONS)
      = spec_prefix_of ([first_frame, second_frame] ! 1)"
    by (rule pre [rule_format]) simp
  then have b: "read_bytes (mem s') (12 + 1233620) (20 + 24 * 200) = spec_prefix_of second_frame"
    by (simp add: slot_offset_def sizeof_int_def MAX_DETECTIONS_def SLOT_SIZE_value)
  have "\<exists>sk. write_frames (take 2 [first_frame, second_frame]) (initialised no_objects) = Inr sk
      \<and> sint (write_index sk) = int (2 mod QUEUE_SIZE)"
    by (rule idx [rule_format]) simp
  with run have c: "sint (write_index s') = 2"
    by (simp add: QUEUE_SIZE_def)
  from run a b c have "\<exists>s'. write_frames [first_frame, second_frame] (initialised no_objects) = Inr s'
        \<and> read_bytes (mem s') 12 (20 + 24 * 200) = spec_prefix_of first_frame
        \<and> read_bytes (mem s') (12 + 1233620) (20 + 24 * 200) = spec_prefix_of second_frame
        \<and> sint (write_index s') = 2"
    by blast
  with h wf show ?thesis
    by (intro conjI)
qed

subsection \<open>More detections than the slot has room for\<close>

text \<open>
  Claim C2. A call whose \<^verbatim>\<open>boxes\<close> vector is longer than \<^verbatim>\<open>MAX_DETECTIONS\<close> = 200 (the
  three vectors parallel, the size below \<open>2^31\<close>, so that the conversion to \<^verbatim>\<open>int\<close>
  keeps it) raises no error: from a ready state it returns. Whenever it has returned,
  the header's detection count is \<^verbatim>\<open>MAX_DETECTIONS\<close>, and the detection region of the
  slot is exactly the first \<^verbatim>\<open>MAX_DETECTIONS\<close> detections in input order, record \<open>i\<close>
  being detection \<open>i\<close>; the detections after them are stored nowhere.
\<close>

theorem truncation_at_MAX_DETECTIONS:
  assumes "length class_ids = length boxes" "length confs = length boxes"
    and "MAX_DETECTIONS < length boxes" "length boxes < 2 ^ 31"
  shows "(ready s \<longrightarrow> (\<exists>s'. write_frame frame_id frame640 class_ids confs boxes s = Inr s'))
    \<and> (\<forall>s'. write_frame frame_id frame640 class_ids confs boxes s = Inr s' \<longrightarrow>
          rd32 (mem s') (slot_offset (write_index s) + 16) = word_of_nat MAX_DETECTIONS
          \<and> read_bytes (mem s') (slot_offset (write_index s) + 20)
               (MAX_DETECTIONS * DET_RECORD_SIZE)
             = concat (map spec_detection
                 (take MAX_DETECTIONS (detections_of class_ids confs boxes)))
          \<and> (\<forall>i < MAX_DETECTIONS.
                read_bytes (mem s') (slot_offset (write_index s) + 20 + 24 * int i) 24
                = spec_detection (class_ids ! i, confs ! i, boxes ! i)))"
proof (intro conjI allI impI)
  assume "ready s"
  with assms(1,2) show "\<exists>s'. write_frame frame_id frame640 class_ids confs boxes s = Inr s'"
    by (rule returns_when_ready)
next
  fix s'
  assume r: "write_frame frame_id frame640 class_ids confs boxes s = Inr s'"
  note s' = returned_state [OF r]
  have n: "clamped_num boxes = word_of_nat MAX_DETECTIONS"
    "sint (clamped_num boxes) = int MAX_DETECTIONS"
    using clamped_num_small [OF assms(4)] assms(3) by (simp_all add: min_def)
  show "rd32 (mem s') (slot_offset (write_index s) + 16) = word_of_nat MAX_DETECTIONS"
    unfolding s'(1) using post_count [OF s'(2)] n by simp
  have "loop_bytes 0 (clamped_num boxes) class_ids confs boxes =
    concat (map spec_detection (take MAX_DETECTIONS (detections_of class_ids confs boxes)))
      @ replicate (24 * (MAX_DETECTIONS - MAX_DETECTIONS)) 0"
    using assms n by (intro loop_bytes_spec) simp_all
  then show "read_bytes (mem s') (slot_offset (write_index s) + 20)
               (MAX_DETECTIONS * DET_RECORD_SIZE)
             = concat (map spec_detection
                 (take MAX_DETECTIONS (detections_of class_ids confs boxes)))"
    unfolding s'(1) using post_records [OF s'(2), of frame_id frame640 class_ids confs boxes]
    by (simp add: DET_RECORD_SIZE_def mult.commute)
  fix i assume "i < MAX_DETECTIONS"
  then show "read_bytes (mem s') (slot_offset (write_index s) + 20 + 24 * int i) 24
      = spec_detection (class_ids ! i, confs ! i, boxes ! i)"
    unfolding s'(1) using n by (simp add: post_record [OF s'(2)] encode_detection_spec)
qed

text \<open>
  A call with 201 detections, numbered by class id and box, after a fresh start: the
  count read back from the slot is 200, record 0 is detection 0, and record 199, the
  last one, is detection 199.
\<close>

theorem truncation_at_MAX_DETECTIONS_witness:
  "length many_class_ids = length many_boxes \<and> length many_confs = length many_boxes
   \<and> MAX_DETECTIONS < length many_boxes \<and> length many_boxes < 2 ^ 31
   \<and> ready (initialised no_objects)
   \<and> (\<exists>s'. write_frame 1 scenario_image many_class_ids many_confs many_boxes
              (initialised no_objects) = Inr s'
          \<and> rd32 (mem s') 28 = 200
          \<and> read_bytes (mem s') (12 + 20 + 24 * 0) 24
            = spec_detection (0, 0x3F000000, Rect 0 2 3 4)
          \<and> read_bytes (mem s') (12 + 20 + 24 * 199) 24
            = spec_detection (199, 0x3F000000, Rect 199 2 3 4))"
proof -
  have h: "length many_class_ids = length many_boxes" "length many_confs = length many_boxes"
    "MAX_DETECTIONS < length many_boxes" "length many_boxes < 2 ^ 31"
    by (simp_all add: many_class_ids_def many_confs_def many_boxes_def MAX_DETECTIONS_def)
  note t = truncation_at_MAX_DETECTIONS [OF h, of "initialised no_objects" 1 scenario_image]
  from t fresh_state_ready obtain s' where
    r: "write_frame 1 scenario_image many_class_ids many_confs many_boxes
          (initialised no_objects) = Inr s'"
    by blast
  with t have c: "rd32 (mem s') (slot_offset (write_index (initialised no_objects)) + 16)
      = word_of_nat MAX_DETECTIONS"
    and z: "\<forall>i < MAX_DETECTIONS.
        read_bytes (mem s') (slot_offset (write_index (initialised no_objects)) + 20 + 24 * int i) 24
        = spec_detection (many_class_ids ! i, many_confs ! i, many_boxes ! i)"
    by blast+
  have "read_bytes (mem s') (slot_offset (write_index (initialised no_objects)) + 20
        + 24 * int 0) 24
      = spec_detection (many_class_ids ! 0, many_confs ! 0, many_boxes ! 0)"
    by (rule z [rule_format]) (simp add: MAX_DETECTIONS_def)
  then have d0: "read_bytes (mem s') (12 + 20 + 24 * 0) 24
      = spec_detection (0, 0x3F000000, Rect 0 2 3 4)"
    by (simp add: fresh_slot_offset many_class_ids_def many_confs_def many_boxes_def)
  have "read_bytes (mem s') (slot_offset (write_index (initialised no_objects)) + 20
        + 24 * int 199) 24
      = spec_detection (many_class_ids ! 199, many_confs ! 199, many_boxes ! 199)"
    by (rule z [rule_format]) (simp add: MAX_DETECTIONS_def)
  then have d: "read_bytes (mem s') (12 + 20 + 24 * 199) 24
      = spec_detection (199, 0x3F000000, Rect 199 2 3 4)"
    by (simp add: fresh_slot_offset many_class_ids_def many_confs_def many_boxes_def)
  from c have c': "rd32 (mem s') 28 = 200"
    by (simp add: fresh_slot_offset MAX_DETECTIONS_def)
  from r c' d0 d have "\<exists>s'. write_frame 1 scenario_image many_class_ids many_confs many_boxes
              (initialised no_objects) = Inr s'
          \<and> rd32 (mem s') 28 = 200
          \<and> read_bytes (mem s') (12 + 20 + 24 * 0) 24
            = spec_detection (0, 0x3F000000, Rect 0 2 3 4)
          \<and> read_bytes (mem s') (12 + 20 + 24 * 199) 24
            = spec_detection (199, 0x3F000000, Rect 199 2 3 4)"
    by blast
  with h fresh_state_ready show ?thesis
    by (intro conjI)
qed

subsection \<open>Fewer detections than the slot has room for\<close>

text \<open>
  Claim C3. A call with fewer than \<^verbatim>\<open>MAX_DETECTIONS\<close> detections (the three vectors
  parallel) returns from a ready state, and whenever it has returned, every record
  from index \<open>length boxes\<close> to \<^verbatim>\<open>MAX_DETECTIONS\<close> - 1 is 24 zero bytes; the whole
  detection region is then the detections in input order followed by zeros, as the
  specification lays it out, whatever the slot held before.
\<close>

theorem zero_padding:
  assumes "length class_ids = length boxes" "length confs = length boxes"
    and "length boxes < MAX_DETECTIONS"
  shows "(ready s \<longrightarrow> (\<exists>s'. write_frame frame_id frame640 class_ids confs boxes s = Inr s'))
    \<and> (\<forall>s'. write_frame frame_id frame640 class_ids confs boxes s = Inr s' \<longrightarrow>
          (\<forall>i. length boxes \<le> i \<and> i < MAX_DETECTIONS \<longrightarrow>
              read_bytes (mem s') (slot_offset (write_index s) + 20 + 24 * int i) 24
              = replicate 24 0)
          \<and> read_bytes (mem s') (slot_offset (write_index s) + 20)
               (MAX_DETECTIONS * DET_RECORD_SIZE)
             = spec_detections (detections_of class_ids confs boxes))"
proof (intro conjI allI impI)
  assume "ready s"
  with assms(1,2) show "\<exists>s'. write_frame frame_id frame640 class_ids confs boxes s = Inr s'"
    by (rule returns_when_ready)
next
  fix s'
  assume r: "write_frame frame_id frame640 class_ids confs boxes s = Inr s'"
  note s' = returned_state [OF r]
  have small: "length boxes < 2 ^ 31"
    using assms(3) by (simp add: MAX_DETECTIONS_def)
  have n: "sint (clamped_num boxes) = int (length boxes)"
    using clamped_num_small(2) [OF small] assms(3) by (simp add: min_def)
  have l: "length (detections_of class_ids confs boxes) = length boxes"
    using assms by (simp add: detections_of_def)
  have "loop_bytes 0 (clamped_num boxes) class_ids confs boxes =
    concat (map spec_detection (take (length boxes) (detections_of class_ids confs boxes)))
      @ replicate (24 * (MAX_DETECTIONS - length boxes)) 0"
    using assms n by (intro loop_bytes_spec) simp_all
  then show "read_bytes (mem s') (slot_offset (write_index s) + 20)
               (MAX_DETECTIONS * DET_RECORD_SIZE)
             = spec_detections (detections_of class_ids confs boxes)"
    unfolding s'(1) using post_records [OF s'(2), of frame_id frame640 class_ids confs boxes]
      assms(3) l
    by (simp add: DET_RECORD_SIZE_def mult.commute spec_detections_def)
  fix i assume "length boxes \<le> i \<and> i < MAX_DETECTIONS"
  then show "read_bytes (mem s') (slot_offset (write_index s) + 20 + 24 * int i) 24
      = replicate 24 0"
    unfolding s'(1) using n by (simp add: post_record [OF s'(2)])
qed

text \<open>
  The scenario with its two detections: records 2 and 199 are 24 zero bytes each.
\<close>

theorem zero_padding_witness:
  "length scenario_class_ids = length scenario_boxes
   \<and> length scenario_confs = length scenario_boxes
   \<and> length scenario_boxes < MAX_DETECTIONS
   \<and> ready (initialised no_objects)
   \<and> (\<exists>s'. write_frame 1 scenario_image scenario_class_ids scenario_confs scenario_boxes
              (initialised no_objects) = Inr s'
          \<and> read_bytes (mem s') (12 + 20 + 24 * 2) 24 = replicate 24 0
          \<and> read_bytes (mem s') (12 + 20 + 24 * 199) 24 = replicate 24 0)"
proof -
  have h: "length scenario_class_ids = length scenario_boxes"
    "length scenario_confs = length scenario_boxes"
    "length scenario_boxes < MAX_DETECTIONS"
    by (simp_all add: scenario_class_ids_def scenario_confs_def scenario_boxes_def
        MAX_DETECTIONS_def)
  note t = zero_padding [OF h, of "initialised no_objects" 1 scenario_image]
  from t fresh_state_ready obtain s' where
    r: "write_frame 1 scenario_image scenario_class_ids scenario_confs scenario_boxes
          (initialised no_objects) = Inr s'"
    by blast
  with t have z: "\<forall>i. length scenario_boxes \<le> i \<and> i < MAX_DETECTIONS \<longrightarrow>
      read_bytes (mem s') (slot_offset (write_index (initialised no_objects)) + 20 + 24 * int i) 24
      = replicate 24 0"
    by blast
  have "read_bytes (mem s') (slot_offset (write_index (initialised no_objects)) + 20 + 24 * int 2) 24
      = replicate 24 0"
    by (rule z [rule_format]) (simp add: scenario_boxes_def MAX_DETECTIONS_def)
  then have a: "read_bytes (mem s') (12 + 20 + 24 * 2) 24 = replicate 24 0"
    by (simp add: fresh_slot_offset)
  have "read_bytes (mem s') (slot_offset (write_index (initialised no_objects)) + 20 + 24 * int 199) 24
      = replicate 24 0"
    by (rule z [rule_format]) (simp add: scenario_boxes_def MAX_DETECTIONS_def)
  then have b: "read_bytes (mem s') (12 + 20 + 24 * 199) 24 = replicate 24 0"
    by (simp add: fresh_slot_offset)
  from r a b have "\<exists>s'. write_frame 1 scenario_image scenario_class_ids scenario_confs
        scenario_boxes (initialised no_objects) = Inr s'
      \<and> read_bytes (mem s') (12 + 20 + 24 * 2) 24 = replicate 24 0
      \<and> read_bytes (mem s') (12 + 20 + 24 * 199) 24 = replicate 24 0"
    by blast
  with h fresh_state_ready show ?thesis
    by (intro conjI)
qed

subsection \<open>An image of the wrong size\<close>

text \<open>
  Claim C4. When \<^verbatim>\<open>total() * elemSize()\<close> of the image differs from
  \<^verbatim>\<open>INPUT_WIDTH * INPUT_HEIGHT * CHANNELS\<close>, a well-formed call still returns from a
  ready state, with no fault; whenever it has returned, the image region of the
  slot is all zero bytes, and header and detection records are those the
  specification's layout gives the inputs.
\<close>

theorem image_size_mismatch:
  assumes "mat_total_times_elemSize frame640 \<noteq> INPUT_WIDTH * INPUT_HEIGHT * CHANNELS"
    and "length class_ids = length boxes" "length confs = length boxes"
    and "length boxes < 2 ^ 31"
  shows "(ready s \<longrightarrow> (\<exists>s'. write_frame frame_id frame640 class_ids confs boxes s = Inr s'))
    \<and> (\<forall>s'. write_frame frame_id frame640 class_ids confs boxes s = Inr s' \<longrightarrow>
          read_bytes (mem s') (slot_offset (write_index s) + 20 + 24 * int MAX_DETECTIONS)
            (INPUT_WIDTH * INPUT_HEIGHT * CHANNELS)
          = replicate (INPUT_WIDTH * INPUT_HEIGHT * CHANNELS) 0
          \<and> read_bytes (mem s') (slot_offset (write_index s)) (20 + 24 * MAX_DETECTIONS)
            = spec_record_prefix frame_id (detections_of class_ids confs boxes))"
proof (intro conjI allI impI)
  assume "ready s"
  with assms(2,3) show "\<exists>s'. write_frame frame_id frame640 class_ids confs boxes s = Inr s'"
    by (rule returns_when_ready)
next
  fix s'
  assume r: "write_frame frame_id frame640 class_ids confs boxes s = Inr s'"
  note s' = returned_state [OF r]
  have "image_bytes frame640 = replicate (INPUT_WIDTH * INPUT_HEIGHT * CHANNELS) 0"
    using assms(1) by (simp add: image_bytes_def)
  then show "read_bytes (mem s') (slot_offset (write_index s) + 20 + 24 * int MAX_DETECTIONS)
            (INPUT_WIDTH * INPUT_HEIGHT * CHANNELS)
          = replicate (INPUT_WIDTH * INPUT_HEIGHT * CHANNELS) 0"
    unfolding s'(1) using post_image [OF s'(2), of frame_id frame640 class_ids confs boxes]
    by simp
  show "read_bytes (mem s') (slot_offset (write_index s)) (20 + 24 * MAX_DETECTIONS)
            = spec_record_prefix frame_id (detections_of class_ids confs boxes)"
    unfolding s'(1) using post_prefix [OF s'(2), of frame_id frame640 class_ids confs boxes]
      prefix_spec [OF assms(2,3,4), of frame_id]
    by simp
qed

text \<open>
  The scenario with an image of three bytes: 1228800 zero bytes in the image region,
  header and records as specified.
\<close>

theorem image_size_mismatch_witness:
  "mat_total_times_elemSize short_image \<noteq> INPUT_WIDTH * INPUT_HEIGHT * CHANNELS
   \<and> length scenario_class_ids = length scenario_boxes
   \<and> length scenario_confs = length scenario_boxes
   \<and> length scenario_boxes < 2 ^ 31
   \<and> ready (initialised no_objects)
   \<and> (\<exists>s'. write_frame 1 short_image scenario_class_ids scenario_confs scenario_boxes
              (initialised no_objects) = Inr s'
          \<and> read_bytes (mem s') (12 + 20 + 24 * 200) 1228800 = replicate 1228800 0
          \<and> read_bytes (mem s') 12 (20 + 24 * 200)
            = spec_record_prefix 1
                [(3, 0x3F68F5C3, Rect 10 20 30 40), (7, 0x3F000000, Rect 0 0 5 5)])"
proof -
  have h: "mat_total_times_elemSize short_image \<noteq> INPUT_WIDTH * INPUT_HEIGHT * CHANNELS"
    "length scenario_class_ids = length scenario_boxes"
    "length scenario_confs = length scenario_boxes"
    "length scenario_boxes < 2 ^ 31"
    by (simp_all add: scenario_class_ids_def scenario_confs_def scenario_boxes_def
        mat_total_times_elemSize_def short_image_def INPUT_WIDTH_def INPUT_HEIGHT_def
        CHANNELS_def)
  note t = image_size_mismatch [OF h, of "initialised no_objects" 1]
  from t fresh_state_ready obtain s' where
    r: "write_frame 1 short_image scenario_class_ids scenario_confs scenario_boxes
          (initialised no_objects) = Inr s'"
    by blast
  with t have "read_bytes (mem s')
        (slot_offset (write_index (initialised no_objects)) + 20 + 24 * int MAX_DETECTIONS)
        (INPUT_WIDTH * INPUT_HEIGHT * CHANNELS)
      = replicate (INPUT_WIDTH * INPUT_HEIGHT * CHANNELS) 0"
    and "read_bytes (mem s') (slot_offset (write_index (initialised no_objects)))
        (20 + 24 * MAX_DETECTIONS)
      = spec_record_prefix 1 (detections_of scenario_class_ids scenario_confs scenario_boxes)"
    by blast+
  then have a: "read_bytes (mem s') (12 + 20 + 24 * 200) 1228800 = replicate 1228800 0"
    and b: "read_bytes (mem s') 12 (20 + 24 * 200)
      = spec_record_prefix 1
          [(3, 0x3F68F5C3, Rect 10 20 30 40), (7, 0x3F000000, Rect 0 0 5 5)]"
    by (simp_all add: fresh_slot_offset MAX_DETECTIONS_def INPUT_WIDTH_def INPUT_HEIGHT_def
        CHANNELS_def detections_of_def scenario_class_ids_def scenario_confs_def
        scenario_boxes_def)
  from r a b have "\<exists>s'. write_frame 1 short_image scenario_class_ids scenario_confs
        scenario_boxes (initialised no_objects) = Inr s'
      \<and> read_bytes (mem s') (12 + 20 + 24 * 200) 1228800 = replicate 1228800 0
      \<and> read_bytes (mem s') 12 (20 + 24 * 200)
        = spec_record_prefix 1
            [(3, 0x3F68F5C3, Rect 10 20 30 40), (7, 0x3F000000, Rect 0 0 5 5)]"
    by blast
  with h fresh_state_ready show ?thesis
    by (intro conjI)
qed

subsection \<open>Sizes and offsets\<close>

text \<open>
  Claim C5. The slot size is 20 + 200 * 24 + 640 * 640 * 3 = 1233620 bytes and the
  shared region 12 + 5 * 1233620 bytes; slot \<open>i\<close>, for \<open>i\<close> below \<^verbatim>\<open>QUEUE_SIZE\<close>, starts
  at offset 12 + \<open>i\<close> * 1233620 and lies inside the region; every \<^verbatim>\<open>int\<close> or \<^verbatim>\<open>float\<close>
  field takes 4 bytes; and the fields are packed without gaps: a call that has
  returned leaves in its slot the five header fields, then 200 records of six fields
  (or 24 zero bytes) each, then the image, and these are all the \<^verbatim>\<open>SLOT_SIZE\<close> bytes
  of the slot.
\<close>

theorem slot_addressing:
  "SLOT_SIZE = 20 + 200 * 24 + 640 * 640 * 3
   \<and> SLOT_SIZE = 1233620
   \<and> SHM_SIZE = 12 + 5 * SLOT_SIZE
   \<and> (\<forall>i < QUEUE_SIZE.
         slot_offset (word_of_nat i) = 12 + int i * int SLOT_SIZE
         \<and> in_view (slot_offset (word_of_nat i)) SLOT_SIZE)
   \<and> (\<forall>w. length (le32 w) = 4)
   \<and> (\<forall>frame_id frame640 class_ids confs boxes s s'.
         write_frame frame_id frame640 class_ids confs boxes s = Inr s' \<longrightarrow>
           read_bytes (mem s') (slot_offset (write_index s)) SLOT_SIZE
           = le32 frame_id @ le32 640 @ le32 640 @ le32 3 @ le32 (clamped_num boxes)
             @ concat (map (\<lambda>j. if int j < sint (clamped_num boxes)
                  then le32 (class_ids ! j) @ le32 (confs ! j) @ le32 (rect_x (boxes ! j))
                    @ le32 (rect_y (boxes ! j)) @ le32 (rect_width (boxes ! j))
                    @ le32 (rect_height (boxes ! j))
                  else replicate 24 0) [0..<200])
             @ (if length (mat_data frame640) = 640 * 640 * 3 then mat_data frame640
                else replicate (640 * 640 * 3) 0))"
proof (intro conjI allI impI)
  show "SLOT_SIZE = 20 + 200 * 24 + 640 * 640 * 3" "SLOT_SIZE = 1233620"
    by (simp_all add: SLOT_SIZE_value)
  show "SHM_SIZE = 12 + 5 * SLOT_SIZE"
    by (simp add: SHM_SIZE_def sizeof_int_def QUEUE_SIZE_def)
next
  fix i assume i: "i < QUEUE_SIZE"
  show "slot_offset (word_of_nat i) = 12 + int i * int SLOT_SIZE"
    using i by (rule slot_offset_of_nat)
  have "sint (word_of_nat i :: 32 word) = int i"
    using i by (intro sint_word_of_nat_small) (simp add: QUEUE_SIZE_def)
  then show "in_view (slot_offset (word_of_nat i)) SLOT_SIZE"
    using i by (intro in_view_slot) simp_all
next
  fix w :: "32 word"
  show "length (le32 w) = 4" by simp
next
  fix frame_id frame640 class_ids confs boxes s s'
  assume "write_frame frame_id frame640 class_ids confs boxes s = Inr s'"
  then have en: "enabled class_ids confs boxes s"
    and s': "s' = post frame_id frame640 class_ids confs boxes s"
    by (simp_all add: write_frame_eq_Inr)
  from en have w: "0 \<le> sint (write_index s)"
    by (simp add: enabled_def ready_def)
  have "read_bytes (mem s') (slot_offset (write_index s) + int 0) SLOT_SIZE
      = take SLOT_SIZE (drop 0 (slot_bytes frame_id frame640 class_ids confs boxes))"
    unfolding s' using w by (rule read_bytes_post_slot) simp
  then have "read_bytes (mem s') (slot_offset (write_index s)) SLOT_SIZE
      = slot_bytes frame_id frame640 class_ids confs boxes"
    by simp
  then show "read_bytes (mem s') (slot_offset (write_index s)) SLOT_SIZE
           = le32 frame_id @ le32 640 @ le32 640 @ le32 3 @ le32 (clamped_num boxes)
             @ concat (map (\<lambda>j. if int j < sint (clamped_num boxes)
                  then le32 (class_ids ! j) @ le32 (confs ! j) @ le32 (rect_x (boxes ! j))
                    @ le32 (rect_y (boxes ! j)) @ le32 (rect_width (boxes ! j))
                    @ le32 (rect_height (boxes ! j))
                  else replicate 24 0) [0..<200])
             @ (if length (mat_data frame640) = 640 * 640 * 3 then mat_data frame640
                else replicate (640 * 640 * 3) 0)"
    by (simp add: slot_bytes_def header_bytes_def loop_bytes_def encode_detection_def
        image_bytes_def mat_total_times_elemSize_def MAX_DETECTIONS_def INPUT_WIDTH_def
        INPUT_HEIGHT_def CHANNELS_def cong: if_cong)
qed

text \<open>
  Slot 3 starts at 12 + 3 * 1233620, and the scenario's call fills slot 0, at offset 12.
\<close>

theorem slot_addressing_witness:
  "(3::nat) < QUEUE_SIZE
   \<and> slot_offset (word_of_nat 3) = 12 + int 3 * int SLOT_SIZE
   \<and> in_view (slot_offset (word_of_nat 3)) SLOT_SIZE
   \<and> write_frame 1 scenario_image scenario_class_ids scenario_confs scenario_boxes
        (initialised no_objects)
      = Inr (post 1 scenario_image scenario_class_ids scenario_confs scenario_boxes
          (initialised no_objects))
   \<and> read_bytes (mem (post 1 scenario_image scenario_class_ids scenario_confs scenario_boxes
          (initialised no_objects))) 12 SLOT_SIZE
      = le32 1 @ le32 640 @ le32 640 @ le32 3 @ le32 2
        @ concat (map (\<lambda>j. if int j < 2
              then le32 (scenario_class_ids ! j) @ le32 (scenario_confs ! j)
                @ le32 (rect_x (scenario_boxes ! j)) @ le32 (rect_y (scenario_boxes ! j))
                @ le32 (rect_width (scenario_boxes ! j)) @ le32 (rect_height (scenario_boxes ! j))
              else replicate 24 0) [0..<200])
        @ replicate 1228800 114"
proof -
  have q: "(3::nat) < QUEUE_SIZE"
    by (simp add: QUEUE_SIZE_def)
  from slot_addressing have "\<forall>i < QUEUE_SIZE.
      slot_offset (word_of_nat i) = 12 + int i * int SLOT_SIZE
      \<and> in_view (slot_offset (word_of_nat i)) SLOT_SIZE"
    by blast
  with q have a: "slot_offset (word_of_nat 3) = 12 + int 3 * int SLOT_SIZE
      \<and> in_view (slot_offset (word_of_nat 3)) SLOT_SIZE"
    by blast
  from slot_addressing have "\<forall>frame_id frame640 class_ids confs boxes s s'.
         write_frame frame_id frame640 class_ids confs boxes s = Inr s' \<longrightarrow>
           read_bytes (mem s') (slot_offset (write_index s)) SLOT_SIZE
           = le32 frame_id @ le32 640 @ le32 640 @ le32 3 @ le32 (clamped_num boxes)
             @ concat (map (\<lambda>j. if int j < sint (clamped_num boxes)
                  then le32 (class_ids ! j) @ le32 (confs ! j) @ le32 (rect_x (boxes ! j))
                    @ le32 (rect_y (boxes ! j)) @ le32 (rect_width (boxes ! j))
                    @ le32 (rect_height (boxes ! j))
                  else replicate 24 0) [0..<200])
             @ (if length (mat_data frame640) = 640 * 640 * 3 then mat_data frame640
                else replicate (640 * 640 * 3) 0)"
    by blast
  from this [rule_format, OF scenario_returns]
  have b: "read_bytes (mem (post 1 scenario_image scenario_class_ids scenario_confs scenario_boxes
          (initialised no_objects))) 12 SLOT_SIZE
      = le32 1 @ le32 640 @ le32 640 @ le32 3 @ le32 2
        @ concat (map (\<lambda>j. if int j < 2
              then le32 (scenario_class_ids ! j) @ le32 (scenario_confs ! j)
                @ le32 (rect_x (scenario_boxes ! j)) @ le32 (rect_y (scenario_boxes ! j))
                @ le32 (rect_width (scenario_boxes ! j)) @ le32 (rect_height (scenario_boxes ! j))
              else replicate 24 0) [0..<200])
        @ replicate 1228800 114"
    by (simp add: fresh_slot_offset scenario_clamped_num scenario_image_def)
  from a have a1: "slot_offset (word_of_nat 3) = 12 + int 3 * int SLOT_SIZE"
    and a2: "in_view (slot_offset (word_of_nat 3)) SLOT_SIZE"
    by blast+
  show ?thesis
    by (intro conjI q a1 a2 scenario_returns b)
qed

subsection \<open>Initialising the control block\<close>

text \<open>
  \<^verbatim>\<open>main\<close> does not look whether the mapping existed. Started on the region that an
  earlier run has left with write index 3, read index 2 and total 8, it zeroes all
  three fields.
\<close>

theorem main_init_zeroes_existing:
  "obj_shm existing_objects \<noteq> None
   \<and> write_index (open_objects existing_objects) = 3
   \<and> read_index (open_objects existing_objects) = 2
   \<and> total_written (open_objects existing_objects) = 8
   \<and> main_init existing_objects = Inr (initialised existing_objects)
   \<and> write_index (initialised existing_objects) = 0
   \<and> read_index (initialised existing_objects) = 0
   \<and> total_written (initialised existing_objects) = 0"
  by (intro conjI existing_fields existing_control_block existing_main_init
      control_block_initialised)

text \<open>
  Claim C6, as the code has it. Whenever \<^verbatim>\<open>main\<close> obtains the mapping and its view, it
  sets the control block to write index 0, read index 0 and total 0: whether it has
  created the region or attached to one that exists, whatever that one held.
\<close>

theorem main_init_control_block:
  assumes "\<not> shm_refused k" "\<not> view_refused k"
  shows "\<exists>s. main_init k = Inr s \<and> write_index s = 0 \<and> read_index s = 0 \<and> total_written s = 0"
  using main_init_Inr [OF assms] by (simp add: control_block_initialised)

text \<open>The same on the region left by the earlier run.\<close>

theorem main_init_control_block_witness:
  "\<not> shm_refused existing_objects \<and> \<not> view_refused existing_objects
   \<and> obj_shm existing_objects \<noteq> None
   \<and> write_index (open_objects existing_objects) = 3
   \<and> (\<exists>s. main_init existing_objects = Inr s \<and> write_index s = 0 \<and> read_index s = 0
          \<and> total_written s = 0)"
  by (intro conjI existing_fields existing_control_block
      main_init_control_block [OF existing_fields(3,4)])

subsection \<open>The read index\<close>

text \<open>
  The producer does write the read index: line 204 of \<^verbatim>\<open>main\<close> stores 0 into
  \<^verbatim>\<open>ctrl[1]\<close>, and on the region left by the earlier run this changes it from 2 to 0.
\<close>

theorem main_init_resets_read_index:
  "read_index (open_objects existing_objects) = 2
   \<and> main_init existing_objects = Inr (initialised existing_objects)
   \<and> read_index (initialised existing_objects) = 0
   \<and> EvStore 4 4 \<in> set (trace (initialised existing_objects))"
proof -
  have "EvStore 4 4 \<in> set (trace (initialised existing_objects))"
    by (simp add: initialised_def)
  then show ?thesis
    by (intro conjI existing_control_block existing_main_init control_block_initialised)
qed

text \<open>
  Claim C7, as the code has it. A call of \<^verbatim>\<open>write_frame\<close> that has returned leaves the
  read index as it was, and none of its stores touches the four bytes of that field.
  The start of \<^verbatim>\<open>main\<close> does store into the field: it leaves the read index 0.
\<close>

theorem read_index_untouched_by_enqueue:
  "(write_frame frame_id frame640 class_ids confs boxes s = Inr s' \<longrightarrow>
      read_index s' = read_index s
      \<and> (\<forall>p n. EvStore p n \<in> set (new_events s s') \<longrightarrow> p + int n \<le> 4 \<or> 8 \<le> p))
   \<and> (main_init k = Inr s0 \<longrightarrow> read_index s0 = 0 \<and> EvStore 4 4 \<in> set (trace s0))"
proof (intro conjI impI)
  assume r: "write_frame frame_id frame640 class_ids confs boxes s = Inr s'"
  then have en: "enabled class_ids confs boxes s"
    and s': "s' = post frame_id frame640 class_ids confs boxes s"
    by (simp_all add: write_frame_eq_Inr)
  from en have w: "0 \<le> sint (write_index s)"
    by (simp add: enabled_def ready_def)
  note ge = slot_offset_ge [OF w]
  have "mem s' a = mem s a" if "4 \<le> a" "a < 4 + 4" for a
    unfolding s' using that ge by (intro mem_post_outside) auto
  then show "read_index s' = read_index s"
    unfolding read_index_def by (intro rd32_cong) auto
  show "\<forall>p n. EvStore p n \<in> set (new_events s s') \<longrightarrow> p + int n \<le> 4 \<or> 8 \<le> p"
  proof (intro allI impI)
    fix p n assume "EvStore p n \<in> set (new_events s s')"
    then have "EvStore p n \<in> set (body_events (slot_offset (write_index s)) (clamped_num boxes))"
      by (simp add: s' new_events_post)
    from body_events_cases [OF this] ge show "p + int n \<le> 4 \<or> 8 \<le> p"
      by auto
  qed
next
  assume "main_init k = Inr s0"
  then have s0: "s0 = initialised k"
    by (simp add: main_init_eq_Inr)
  then show "read_index s0 = 0"
    by (simp add: control_block_initialised)
  from s0 show "EvStore 4 4 \<in> set (trace s0)"
    by (simp add: initialised_def)
qed

text \<open>
  A call on the region left by the earlier run keeps the read index 2; the start of
  \<^verbatim>\<open>main\<close> on the same region makes it 0.
\<close>

theorem read_index_untouched_by_enqueue_witness:
  "read_index (open_objects existing_objects) = 2
   \<and> write_frame 1 scenario_image scenario_class_ids scenario_confs scenario_boxes
        (open_objects existing_objects)
      = Inr (post 1 scenario_image scenario_class_ids scenario_confs scenario_boxes
          (open_objects existing_objects))
   \<and> read_index (post 1 scenario_image scenario_class_ids scenario_confs scenario_boxes
        (open_objects existing_objects)) = 2
   \<and> list_all (\<lambda>e. case e of EvStore p n \<Rightarrow> p + int n \<le> 4 \<or> 8 \<le> p | _ \<Rightarrow> True)
        (new_events (open_objects existing_objects)
          (post 1 scenario_image scenario_class_ids scenario_confs scenario_boxes
            (open_objects existing_objects)))
   \<and> main_init existing_objects = Inr (initialised existing_objects)
   \<and> read_index (initialised existing_objects) = 0
   \<and> EvStore 4 4 \<in> set (trace (initialised existing_objects))"
proof -
  note t = read_index_untouched_by_enqueue [of 1 scenario_image scenario_class_ids
      scenario_confs scenario_boxes "open_objects existing_objects"
      "post 1 scenario_image scenario_class_ids scenario_confs scenario_boxes
        (open_objects existing_objects)" existing_objects "initialised existing_objects"]
  from t existing_scenario_returns
  have a: "read_index (post 1 scenario_image scenario_class_ids scenario_confs scenario_boxes
      (open_objects existing_objects)) = read_index (open_objects existing_objects)"
    and b: "\<forall>p n. EvStore p n \<in> set (new_events (open_objects existing_objects)
        (post 1 scenario_image scenario_class_ids scenario_confs scenario_boxes
          (open_objects existing_objects))) \<longrightarrow> p + int n \<le> 4 \<or> 8 \<le> p"
    by blast+
  from a have a': "read_index (post 1 scenario_image scenario_class_ids scenario_confs
      scenario_boxes (open_objects existing_objects)) = 2"
    by (simp add: existing_control_block)
  from b have b': "list_all (\<lambda>e. case e of EvStore p n \<Rightarrow> p + int n \<le> 4 \<or> 8 \<le> p | _ \<Rightarrow> True)
      (new_events (open_objects existing_objects)
        (post 1 scenario_image scenario_class_ids scenario_confs scenario_boxes
          (open_objects existing_objects)))"
    unfolding list_all_iff by (auto split: event.splits)
  from t existing_main_init
  have c: "read_index (initialised existing_objects) = 0"
    and d: "EvStore 4 4 \<in> set (trace (initialised existing_objects))"
    by blast+
  show ?thesis
    by (intro conjI existing_control_block(2) existing_scenario_returns a' b'
        existing_main_init c d)
qed

subsection \<open>The order of the steps\<close>



subsection \<open>Subscripts stay inside the vectors\<close>

text \<open>
  Claim C9. When \<^verbatim>\<open>class_ids\<close>, \<^verbatim>\<open>confs\<close> and \<^verbatim>\<open>boxes\<close> have the same length, no call
  ends in a subscript out of range, in whatever state it starts; every subscript
  \<^verbatim>\<open>v[i]\<close> that a returned call has evaluated has \<open>i\<close> below both \<open>length boxes\<close> and
  \<^verbatim>\<open>MAX_DETECTIONS\<close>, so inside each of the three vectors; and the count stored in the
  header depends on the vectors through the length of \<^verbatim>\<open>boxes\<close> alone.
\<close>

theorem subscripts_in_bounds:
  assumes "length class_ids = length boxes" "length confs = length boxes"
  shows "write_frame frame_id frame640 class_ids confs boxes s \<noteq> Inl IndexOutOfRange
    \<and> (\<forall>s'. write_frame frame_id frame640 class_ids confs boxes s = Inr s' \<longrightarrow>
          (\<forall>v i. EvIndex v i \<in> set (new_events s s') \<longrightarrow>
              i < min (length boxes) MAX_DETECTIONS
              \<and> i < length class_ids \<and> i < length confs \<and> i < length boxes)
          \<and> rd32 (mem s') (slot_offset (write_index s) + 16) = clamped_num boxes)
    \<and> (\<forall>boxes'. length boxes' = length boxes \<longrightarrow> clamped_num boxes' = clamped_num boxes)"
proof (intro conjI allI impI)
  note ok = parallel_indices_ok [OF assms, of 0]
  show "write_frame frame_id frame640 class_ids confs boxes s \<noteq> Inl IndexOutOfRange"
    using write_frame_fault [OF _ ok, of frame_id frame640 s IndexOutOfRange] by auto
next
  fix boxes' :: "Rect list"
  assume "length boxes' = length boxes"
  then show "clamped_num boxes' = clamped_num boxes"
    by (simp add: clamped_num_def)
next
  fix s'
  assume r: "write_frame frame_id frame640 class_ids confs boxes s = Inr s'"
  note s' = returned_state [OF r]
  show "rd32 (mem s') (slot_offset (write_index s) + 16) = clamped_num boxes"
    unfolding s'(1) using s'(2) by (rule post_count)
  fix v i
  assume "EvIndex v i \<in> set (new_events s s')"
  then have "EvIndex v i \<in> set (body_events (slot_offset (write_index s)) (clamped_num boxes))"
    by (simp add: s'(1) new_events_post)
  from body_events_cases [OF this]
  have "i < MAX_DETECTIONS" "int i < sint (clamped_num boxes)"
    by auto
  with sint_clamped_num_le [of boxes] have i: "i < min (length boxes) MAX_DETECTIONS"
    by simp
  then show "i < min (length boxes) MAX_DETECTIONS" .
  from i assms show "i < length class_ids" "i < length confs" "i < length boxes"
    by simp_all
qed

text \<open>The scenario's call: all subscripts are 0 or 1, and the stored count is 2.\<close>

theorem subscripts_in_bounds_witness:
  "length scenario_class_ids = length scenario_boxes
   \<and> length scenario_confs = length scenario_boxes
   \<and> write_frame 1 scenario_image scenario_class_ids scenario_confs scenario_boxes
        (initialised no_objects) \<noteq> Inl IndexOutOfRange
   \<and> write_frame 1 scenario_image scenario_class_ids scenario_confs scenario_boxes
        (initialised no_objects)
      = Inr (post 1 scenario_image scenario_class_ids scenario_confs scenario_boxes
          (initialised no_objects))
   \<and> list_all (\<lambda>e. case e of EvIndex v i \<Rightarrow> i < 2 | _ \<Rightarrow> True)
        (new_events (initialised no_objects)
          (post 1 scenario_image scenario_class_ids scenario_confs scenario_boxes
            (initialised no_objects)))
   \<and> rd32 (mem (post 1 scenario_image scenario_class_ids scenario_confs scenario_boxes
          (initialised no_objects))) 28 = 2
   \<and> length [Rect 9 9 9 9, Rect 8 8 8 8] = length scenario_boxes
   \<and> clamped_num [Rect 9 9 9 9, Rect 8 8 8 8] = clamped_num scenario_boxes"
proof -
  have h: "length scenario_class_ids = length scenario_boxes"
    "length scenario_confs = length scenario_boxes"
    by (simp_all add: scenario_class_ids_def scenario_confs_def scenario_boxes_def)
  note t = subscripts_in_bounds [OF h, of 1 scenario_image "initialised no_objects"]
  from t have a: "write_frame 1 scenario_image scenario_class_ids scenario_confs scenario_boxes
      (initialised no_objects) \<noteq> Inl IndexOutOfRange"
    by blast
  from t scenario_returns
  have b: "\<forall>v i. EvIndex v i \<in> set (new_events (initialised no_objects)
        (post 1 scenario_image scenario_class_ids scenario_confs scenario_boxes
          (initialised no_objects))) \<longrightarrow> i < min (length scenario_boxes) MAX_DETECTIONS"
    and c: "rd32 (mem (post 1 scenario_image scenario_class_ids scenario_confs scenario_boxes
        (initialised no_objects))) (slot_offset (write_index (initialised no_objects)) + 16)
      = clamped_num scenario_boxes"
    by blast+
  have m: "min (length scenario_boxes) MAX_DETECTIONS = 2"
    by (simp add: scenario_boxes_def MAX_DETECTIONS_def)
  from b have b': "list_all (\<lambda>e. case e of EvIndex v i \<Rightarrow> i < 2 | _ \<Rightarrow> True)
        (new_events (initialised no_objects)
          (post 1 scenario_image scenario_class_ids scenario_confs scenario_boxes
            (initialised no_objects)))"
    unfolding m list_all_iff by (auto split: event.splits)
  from c have c': "rd32 (mem (post 1 scenario_image scenario_class_ids scenario_confs
        scenario_boxes (initialised no_objects))) 28 = 2"
    by (simp add: fresh_slot_offset scenario_clamped_num)
  have l: "length [Rect 9 9 9 9, Rect 8 8 8 8] = length scenario_boxes"
    by (simp add: scenario_boxes_def)
  from t have "\<forall>boxes'. length boxes' = length scenario_boxes \<longrightarrow>
      clamped_num boxes' = clamped_num scenario_boxes"
    by blast
  with l have d: "clamped_num [Rect 9 9 9 9, Rect 8 8 8 8] = clamped_num scenario_boxes"
    by blast
  show ?thesis
    by (intro conjI h a scenario_returns b' c' l d)
qed

subsection \<open>What a call leaves unchanged\<close>

text \<open>
  Claim C10. A call that has returned has its target slot inside the view, and has
  changed no byte outside the \<^verbatim>\<open>SLOT_SIZE\<close> bytes of that slot and the fields
  \<^verbatim>\<open>ctrl[0]\<close> (write index) and \<^verbatim>\<open>ctrl[2]\<close> (total written): every store it made lies in
  one of these three ranges, every byte outside them is as before, and so is each of
  the other slots.
\<close>

theorem write_frame_frame:
  assumes "write_frame frame_id frame640 class_ids confs boxes s = Inr s'"
  shows "in_view (slot_offset (write_index s)) SLOT_SIZE
    \<and> (\<forall>a. \<not> (slot_offset (write_index s) \<le> a \<and> a < slot_offset (write_index s) + int SLOT_SIZE)
            \<and> \<not> (0 \<le> a \<and> a < 4) \<and> \<not> (8 \<le> a \<and> a < 12)
          \<longrightarrow> mem s' a = mem s a)
    \<and> (\<forall>p n. EvStore p n \<in> set (new_events s s') \<longrightarrow>
            (slot_offset (write_index s) \<le> p \<and> p + int n \<le> slot_offset (write_index s) + int SLOT_SIZE)
            \<or> (p = 0 \<and> n = 4) \<or> (p = 8 \<and> n = 4))
    \<and> (\<forall>w. sint w \<noteq> sint (write_index s) \<and> 0 \<le> sint w \<longrightarrow>
            read_bytes (mem s') (slot_offset w) SLOT_SIZE = read_bytes (mem s) (slot_offset w) SLOT_SIZE)"
proof -
  from assms have en: "enabled class_ids confs boxes s"
    and s': "s' = post frame_id frame640 class_ids confs boxes s"
    by (simp_all add: write_frame_eq_Inr)
  from en have w: "0 \<le> sint (write_index s)" "sint (write_index s) < int QUEUE_SIZE"
    by (simp_all add: enabled_def ready_def)
  have 1: "in_view (slot_offset (write_index s)) SLOT_SIZE"
    using w by (rule in_view_slot)
  have 2: "mem s' a = mem s a"
    if "\<not> (slot_offset (write_index s) \<le> a \<and> a < slot_offset (write_index s) + int SLOT_SIZE)"
      "\<not> (0 \<le> a \<and> a < 4)" "\<not> (8 \<le> a \<and> a < 12)" for a
    unfolding s' using that by (intro mem_post_outside) auto
  have 3: "(slot_offset (write_index s) \<le> p \<and> p + int n \<le> slot_offset (write_index s) + int SLOT_SIZE)
            \<or> (p = 0 \<and> n = 4) \<or> (p = 8 \<and> n = 4)"
    if "EvStore p n \<in> set (new_events s s')" for p n
  proof -
    from that have "EvStore p n \<in> set (body_events (slot_offset (write_index s)) (clamped_num boxes))"
      by (simp add: s' new_events_post)
    from body_events_cases [OF this] show ?thesis by auto
  qed
  have 4: "read_bytes (mem s') (slot_offset w) SLOT_SIZE = read_bytes (mem s) (slot_offset w) SLOT_SIZE"
    if "sint w \<noteq> sint (write_index s)" "0 \<le> sint w" for w
  proof (rule read_bytes_cong)
    fix a assume a: "slot_offset w \<le> a" "a < slot_offset w + int SLOT_SIZE"
    from slots_disjoint [OF that(1)] a slot_offset_ge [OF that(2)]
    show "mem s' a = mem s a"
      by (intro 2) auto
  qed
  from 1 2 3 4 show ?thesis by blast
qed

text \<open>
  After the scenario's call, which fills slot 0, the byte at offset 4 and the whole of
  slot 1 are as before.
\<close>

theorem write_frame_frame_witness:
  "write_frame 1 scenario_image scenario_class_ids scenario_confs scenario_boxes
     (initialised no_objects)
   = Inr (post 1 scenario_image scenario_class_ids scenario_confs scenario_boxes
       (initialised no_objects))
   \<and> mem (post 1 scenario_image scenario_class_ids scenario_confs scenario_boxes
       (initialised no_objects)) 4 = mem (initialised no_objects) 4
   \<and> list_all (\<lambda>e. case e of
          EvStore p n \<Rightarrow> (12 \<le> p \<and> p + int n \<le> 12 + int SLOT_SIZE)
            \<or> (p = 0 \<and> n = 4) \<or> (p = 8 \<and> n = 4)
        | _ \<Rightarrow> True)
        (new_events (initialised no_objects)
          (post 1 scenario_image scenario_class_ids scenario_confs scenario_boxes
            (initialised no_objects)))
   \<and> read_bytes (mem (post 1 scenario_image scenario_class_ids scenario_confs scenario_boxes
       (initialised no_objects))) (slot_offset 1) SLOT_SIZE
     = read_bytes (mem (initialised no_objects)) (slot_offset 1) SLOT_SIZE"
proof -
  note f = write_frame_frame [OF scenario_returns]
  from f have "\<forall>a. \<not> (slot_offset (write_index (initialised no_objects)) \<le> a
        \<and> a < slot_offset (write_index (initialised no_objects)) + int SLOT_SIZE)
        \<and> \<not> (0 \<le> a \<and> a < 4) \<and> \<not> (8 \<le> a \<and> a < 12)
      \<longrightarrow> mem (post 1 scenario_image scenario_class_ids scenario_confs scenario_boxes
            (initialised no_objects)) a = mem (initialised no_objects) a"
    by blast
  then have a: "mem (post 1 scenario_image scenario_class_ids scenario_confs scenario_boxes
       (initialised no_objects)) 4 = mem (initialised no_objects) 4"
    by (simp add: fresh_slot_offset)
  from f have "\<forall>w. sint w \<noteq> sint (write_index (initialised no_objects)) \<and> 0 \<le> sint w \<longrightarrow>
      read_bytes (mem (post 1 scenario_image scenario_class_ids scenario_confs scenario_boxes
        (initialised no_objects))) (slot_offset w) SLOT_SIZE
      = read_bytes (mem (initialised no_objects)) (slot_offset w) SLOT_SIZE"
    by blast
  then have b: "read_bytes (mem (post 1 scenario_image scenario_class_ids scenario_confs
        scenario_boxes (initialised no_objects))) (slot_offset 1) SLOT_SIZE
      = read_bytes (mem (initialised no_objects)) (slot_offset 1) SLOT_SIZE"
    by (simp add: control_block_initialised)
  from f have "\<forall>p n. EvStore p n \<in> set (new_events (initialised no_objects)
        (post 1 scenario_image scenario_class_ids scenario_confs scenario_boxes
          (initialised no_objects))) \<longrightarrow>
      (slot_offset (write_index (initialised no_objects)) \<le> p
        \<and> p + int n \<le> slot_offset (write_index (initialised no_objects)) + int SLOT_SIZE)
      \<or> (p = 0 \<and> n = 4) \<or> (p = 8 \<and> n = 4)"
    by blast
  then have c: "list_all (\<lambda>e. case e of
          EvStore p n \<Rightarrow> (12 \<le> p \<and> p + int n \<le> 12 + int SLOT_SIZE)
            \<or> (p = 0 \<and> n = 4) \<or> (p = 8 \<and> n = 4)
        | _ \<Rightarrow> True)
        (new_events (initialised no_objects)
          (post 1 scenario_image scenario_class_ids scenario_confs scenario_boxes
            (initialised no_objects)))"
    unfolding list_all_iff fresh_slot_offset by (auto split: event.splits)
  show ?thesis
    by (intro conjI scenario_returns a c b)
qed

end
